theory Spec2Isabelle
  imports Main "HOL-Library.Word"
begin

unbundle bit_operations_syntax

section \<open>Text and bytes\<close>

text \<open>
  The script works on Python \<open>str\<close> values: sequences of Unicode code points. A code
  point is a natural number here, a text is a list of them, and \<open>py_str\<close> reads an ASCII
  literal of the source as such a text. File contents are lists of bytes.
\<close>

type_synonym str = "nat list"
type_synonym byte = "8 word"
type_synonym u32 = "32 word"

definition py_str :: "string \<Rightarrow> str" where
  "py_str s = map of_char s"

definition dquote :: str where
  "dquote = [34]"

section \<open>The hash: \<open>hashlib.md5(...).hexdigest().upper()\<close>\<close>

text \<open>
  \<open>hashlib\<close> is the standard library, not code of the repository. MD5 is modelled as
  RFC 1321 defines it: the message is padded with \<open>0x80\<close>, zeros and its bit length as a
  64-bit little-endian number to a multiple of 64 bytes; each 64-byte block, read as
  sixteen little-endian 32-bit words, goes through 64 steps; the digest is the four state
  words as sixteen little-endian bytes.
\<close>

definition md5_K :: "u32 list" where
  "md5_K =
    [0xd76aa478, 0xe8c7b756, 0x242070db, 0xc1bdceee, 0xf57c0faf, 0x4787c62a, 0xa8304613, 0xfd469501,
     0x698098d8, 0x8b44f7af, 0xffff5bb1, 0x895cd7be, 0x6b901122, 0xfd987193, 0xa679438e, 0x49b40821,
     0xf61e2562, 0xc040b340, 0x265e5a51, 0xe9b6c7aa, 0xd62f105d, 0x02441453, 0xd8a1e681, 0xe7d3fbc8,
     0x21e1cde6, 0xc33707d6, 0xf4d50d87, 0x455a14ed, 0xa9e3e905, 0xfcefa3f8, 0x676f02d9, 0x8d2a4c8a,
     0xfffa3942, 0x8771f681, 0x6d9d6122, 0xfde5380c, 0xa4beea44, 0x4bdecfa9, 0xf6bb4b60, 0xbebfbc70,
     0x289b7ec6, 0xeaa127fa, 0xd4ef3085, 0x04881d05, 0xd9d4d039, 0xe6db99e5, 0x1fa27cf8, 0xc4ac5665,
     0xf4292244, 0x432aff97, 0xab9423a7, 0xfc93a039, 0x655b59c3, 0x8f0ccc92, 0xffeff47d, 0x85845dd1,
     0x6fa87e4f, 0xfe2ce6e0, 0xa3014314, 0x4e0811a1, 0xf7537e82, 0xbd3af235, 0x2ad7d2bb, 0xeb86d391]"

definition md5_S :: "nat list" where
  "md5_S =
    [7, 12, 17, 22, 7, 12, 17, 22, 7, 12, 17, 22, 7, 12, 17, 22,
     5, 9, 14, 20, 5, 9, 14, 20, 5, 9, 14, 20, 5, 9, 14, 20,
     4, 11, 16, 23, 4, 11, 16, 23, 4, 11, 16, 23, 4, 11, 16, 23,
     6, 10, 15, 21, 6, 10, 15, 21, 6, 10, 15, 21, 6, 10, 15, 21]"

definition rotl32 :: "u32 \<Rightarrow> nat \<Rightarrow> u32" where
  "rotl32 x n = push_bit n x OR drop_bit (32 - n) x"

definition le_word :: "byte list \<Rightarrow> u32" where
  "le_word bs = foldr (\<lambda>b acc. ucast b OR push_bit 8 acc) bs 0"

definition le_bytes :: "nat \<Rightarrow> 'a::len word \<Rightarrow> byte list" where
  "le_bytes n w = map (\<lambda>i. ucast (drop_bit (8 * i) w)) [0..<n]"

type_synonym md5_state = "u32 \<times> u32 \<times> u32 \<times> u32"

fun md5_step :: "u32 list \<Rightarrow> md5_state \<Rightarrow> nat \<Rightarrow> md5_state" where
  "md5_step M (a, b, c, d) i =
     (let (f, g) =
        (if i < 16 then ((b AND c) OR (NOT b AND d), i)
         else if i < 32 then ((d AND b) OR (NOT d AND c), (5 * i + 1) mod 16)
         else if i < 48 then (b XOR c XOR d, (3 * i + 5) mod 16)
         else (c XOR (b OR NOT d), (7 * i) mod 16))
      in (d, b + rotl32 (a + f + md5_K ! i + M ! g) (md5_S ! i), b, c))"

fun md5_block :: "md5_state \<Rightarrow> byte list \<Rightarrow> md5_state" where
  "md5_block (a0, b0, c0, d0) blk =
     (let M = map (\<lambda>j. le_word (take 4 (drop (4 * j) blk))) [0..<16]
      in case foldl (md5_step M) (a0, b0, c0, d0) [0..<64] of
           (a, b, c, d) \<Rightarrow> (a0 + a, b0 + b, c0 + c, d0 + d))"

definition md5_pad :: "byte list \<Rightarrow> byte list" where
  "md5_pad m = m @ [0x80] @ replicate ((119 - length m mod 64) mod 64) 0
                 @ le_bytes 8 (8 * of_nat (length m) :: 64 word)"

definition md5_blocks :: "byte list \<Rightarrow> byte list list" where
  "md5_blocks p = map (\<lambda>i. take 64 (drop (64 * i) p)) [0..<length p div 64]"

definition md5 :: "byte list \<Rightarrow> byte list" where
  "md5 m = (case foldl md5_block (0x67452301, 0xefcdab89, 0x98badcfe, 0x10325476)
                   (md5_blocks (md5_pad m)) of
              (a, b, c, d) \<Rightarrow> le_bytes 4 a @ le_bytes 4 b @ le_bytes 4 c @ le_bytes 4 d)"

text \<open>
  \<open>hexdigest()\<close> writes every byte as two lowercase hexadecimal digits. \<open>str.upper()\<close> is
  modelled on ASCII letters, which is all it meets here: the script applies it to
  hexadecimal digits only (a digest, and group 2 of a match).
\<close>

definition hex_digit :: "nat \<Rightarrow> nat" where
  "hex_digit n = (if n < 10 then 48 + n else 87 + n)"

definition hexdigest :: "byte list \<Rightarrow> str" where
  "hexdigest bs = concat (map (\<lambda>b. [hex_digit (unat (drop_bit 4 b)), hex_digit (unat (b AND 15))]) bs)"

definition upper_char :: "nat \<Rightarrow> nat" where
  "upper_char c = (if 97 \<le> c \<and> c \<le> 122 then c - 32 else c)"

definition upper :: "str \<Rightarrow> str" where
  "upper s = map upper_char s"

text \<open>\<^verbatim>\<open>def md5_of(path): return hashlib.md5(path.read_bytes()).hexdigest().upper()\<close>,
  applied to the bytes read.\<close>

definition md5_of :: "byte list \<Rightarrow> str" where
  "md5_of bs = upper (hexdigest (md5 bs))"

section \<open>The regular expression \<open>FILE_RE\<close>\<close>

text \<open>
  The fragment of Python's \<open>re\<close> that \<open>FILE_RE\<close> is written in: a pattern is a sequence
  of capture groups, a group a sequence of atoms. An atom is a literal text, one character
  of a class, a class repeated exactly \<open>n\<close> times, a greedy \<open>+\<close> of a class or a lazy
  \<open>+?\<close> of a class. Matching is backtracking: every function returns the list of all
  ways to match at the start of the text, as pairs (consumed, rest), in the order in which
  a backtracking matcher tries them. The match \<open>re\<close> reports is the first of the list.
\<close>

datatype atom =
    Lit str
  | Cls "nat \<Rightarrow> bool"
  | Rep nat "nat \<Rightarrow> bool"
  | Plus "nat \<Rightarrow> bool"
  | PlusLazy "nat \<Rightarrow> bool"

text \<open>Greedy \<open>+\<close> tries the longest run first, lazy \<open>+?\<close> the shortest.\<close>

fun greedy_plus :: "(nat \<Rightarrow> bool) \<Rightarrow> str \<Rightarrow> (str \<times> str) list" where
  "greedy_plus P [] = []"
| "greedy_plus P (c # cs) =
     (if P c then map (\<lambda>(p, r). (c # p, r)) (greedy_plus P cs) @ [([c], cs)] else [])"

fun lazy_plus :: "(nat \<Rightarrow> bool) \<Rightarrow> str \<Rightarrow> (str \<times> str) list" where
  "lazy_plus P [] = []"
| "lazy_plus P (c # cs) =
     (if P c then ([c], cs) # map (\<lambda>(p, r). (c # p, r)) (lazy_plus P cs) else [])"

fun match_atom :: "atom \<Rightarrow> str \<Rightarrow> (str \<times> str) list" where
  "match_atom (Lit l) s =
     (if take (length l) s = l then [(l, drop (length l) s)] else [])"
| "match_atom (Cls P) s =
     (case s of [] \<Rightarrow> [] | c # cs \<Rightarrow> if P c then [([c], cs)] else [])"
| "match_atom (Rep n P) s =
     (if n \<le> length s \<and> list_all P (take n s) then [(take n s, drop n s)] else [])"
| "match_atom (Plus P) s = greedy_plus P s"
| "match_atom (PlusLazy P) s = lazy_plus P s"

fun match_seq :: "atom list \<Rightarrow> str \<Rightarrow> (str \<times> str) list" where
  "match_seq [] s = [([], s)]"
| "match_seq (a # as) s =
     concat (map (\<lambda>(p, r). map (\<lambda>(q, r'). (p @ q, r')) (match_seq as r)) (match_atom a s))"

fun match_groups :: "atom list list \<Rightarrow> str \<Rightarrow> (str list \<times> str) list" where
  "match_groups [] s = [([], s)]"
| "match_groups (g # gs) s =
     concat (map (\<lambda>(p, r). map (\<lambda>(ps, r'). (p # ps, r')) (match_groups gs r)) (match_seq g s))"

definition first_of :: "'a list \<Rightarrow> 'a option" where
  "first_of xs = (case xs of [] \<Rightarrow> None | x # _ \<Rightarrow> Some x)"

definition re_match :: "atom list list \<Rightarrow> str \<Rightarrow> (str list \<times> str) option" where
  "re_match re s = first_of (match_groups re s)"

text \<open>
  The character classes of the pattern. \<open>\s\<close> on a \<open>str\<close> pattern is Unicode white
  space; \<open>.\<close> is every character but the line feed (no \<open>DOTALL\<close> flag).
\<close>

definition is_space :: "nat \<Rightarrow> bool" where
  "is_space c \<longleftrightarrow>
     (9 \<le> c \<and> c \<le> 13) \<or> (28 \<le> c \<and> c \<le> 32) \<or> c = 133 \<or> c = 160 \<or> c = 5760
     \<or> (8192 \<le> c \<and> c \<le> 8202) \<or> c = 8232 \<or> c = 8233 \<or> c = 8239 \<or> c = 8287
     \<or> c = 12288"

definition is_hex :: "nat \<Rightarrow> bool" where
  "is_hex c \<longleftrightarrow> (48 \<le> c \<and> c \<le> 57) \<or> (65 \<le> c \<and> c \<le> 70) \<or> (97 \<le> c \<and> c \<le> 102)"

definition is_01 :: "nat \<Rightarrow> bool" where
  "is_01 c \<longleftrightarrow> c = 48 \<or> c = 49"

definition is_dot :: "nat \<Rightarrow> bool" where
  "is_dot c \<longleftrightarrow> c \<noteq> 10"

text \<open>
  \<^verbatim>\<open>FILE_RE = re.compile(r'(<File\s+md5=")([0-9A-Fa-f]{32})("\s+import="[01]">)(.+?)(</File>)')\<close>
\<close>

definition FILE_RE :: "atom list list" where
  "FILE_RE =
     [[Lit (py_str ''<File''), Plus is_space, Lit (py_str ''md5='' @ dquote)],
      [Rep 32 is_hex],
      [Lit dquote, Plus is_space, Lit (py_str ''import='' @ dquote), Cls is_01,
       Lit (dquote @ py_str ''>'')],
      [PlusLazy is_dot],
      [Lit (py_str ''</File>'')]]"

text \<open>
  What the five groups of a match look like, said without the matcher: group 1 is
  \<open><File\<close>, white space, \<open>md5="\<close>; group 2 is 32 hexadecimal digits; group 3 is \<open>"\<close>,
  white space, \<open>import="\<close>, a digit 0 or 1, \<open>">\<close>; group 4 is a non-empty text without
  line feed; group 5 is \<open></File>\<close>. That the matcher finds exactly these is proved below.
\<close>

definition is_group1 :: "str \<Rightarrow> bool" where
  "is_group1 g \<longleftrightarrow>
     (\<exists>w. g = py_str ''<File'' @ w @ py_str ''md5='' @ dquote \<and> w \<noteq> [] \<and> list_all is_space w)"

definition is_group2 :: "str \<Rightarrow> bool" where
  "is_group2 g \<longleftrightarrow> length g = 32 \<and> list_all is_hex g"

definition is_group3 :: "str \<Rightarrow> bool" where
  "is_group3 g \<longleftrightarrow>
     (\<exists>w d. g = dquote @ w @ (py_str ''import='' @ dquote) @ [d] @ (dquote @ py_str ''>'')
        \<and> w \<noteq> [] \<and> list_all is_space w \<and> is_01 d)"

definition is_group4 :: "str \<Rightarrow> bool" where
  "is_group4 g \<longleftrightarrow> g \<noteq> [] \<and> list_all is_dot g"

definition close_tag :: str where
  "close_tag = py_str ''</File>''"


section \<open>Properties of the matcher\<close>

subsection \<open>Greedy repetition before a literal\<close>

lemma concat_map_cons_fst:
  "concat (map ((\<lambda>(p, r). map (\<lambda>(q, r'). (p @ q, r')) (k r)) \<circ> (\<lambda>(p, r). (c # p, r))) xs)
   = map (\<lambda>(q, r'). (c # q, r')) (concat (map (\<lambda>(p, r). map (\<lambda>(q, r'). (p @ q, r')) (k r)) xs))"
  by (induction xs) auto

lemma greedy_plus_bind:
  assumes "\<And>c cs. P c \<Longrightarrow> k (c # cs) = []"
  shows "concat (map (\<lambda>(p, r). map (\<lambda>(q, r'). (p @ q, r')) (k r)) (greedy_plus P s)) =
     (if takeWhile P s = [] then []
      else map (\<lambda>(q, r'). (takeWhile P s @ q, r')) (k (dropWhile P s)))"
proof (induction s)
  case Nil
  then show ?case by simp
next
  case (Cons c cs)
  let ?F = "\<lambda>(p, r). map (\<lambda>(q, r'). (p @ q, r')) (k r)"
  show ?case
  proof (cases "P c")
    case False
    then show ?thesis by simp
  next
    case True
    have split: "concat (map ?F (greedy_plus P (c # cs))) =
        map (\<lambda>(q, r'). (c # q, r')) (concat (map ?F (greedy_plus P cs)))
        @ map (\<lambda>(q, r'). (c # q, r')) (k cs)"
      using True by (simp add: concat_map_cons_fst)
    show ?thesis
    proof (cases cs)
      case Nil
      with True split show ?thesis by simp
    next
      case (Cons c' cs')
      show ?thesis
      proof (cases "P c'")
        case False
        with True split Cons show ?thesis by simp
      next
        case c': True
        then have "k cs = []" using assms Cons by simp
        moreover have "takeWhile P cs \<noteq> []" using c' Cons by simp
        ultimately show ?thesis
          using True split Cons.IH by (simp add: case_prod_unfold)
      qed
    qed
  qed
qed

lemma match_seq_Lit:
  "match_seq (Lit l # as) s =
     (if take (length l) s = l then map (\<lambda>(q, r). (l @ q, r)) (match_seq as (drop (length l) s))
      else [])"
  by simp

lemma match_seq_Lit_mismatch:
  "l \<noteq> [] \<Longrightarrow> \<not> P (hd l) \<Longrightarrow> P c \<Longrightarrow> match_seq (Lit l # as) (c # cs) = []"
  by (cases l) auto

lemma match_seq_Plus_Lit:
  assumes "l \<noteq> []" "\<not> P (hd l)"
  shows "match_seq (Plus P # Lit l # as) s =
     (if takeWhile P s = [] then []
      else map (\<lambda>(q, r). (takeWhile P s @ q, r)) (match_seq (Lit l # as) (dropWhile P s)))"
proof -
  have "match_seq (Plus P # Lit l # as) s =
      concat (map (\<lambda>(p, r). map (\<lambda>(q, r'). (p @ q, r')) (match_seq (Lit l # as) r)) (greedy_plus P s))"
    by simp
  also have "\<dots> = (if takeWhile P s = [] then []
      else map (\<lambda>(q, r). (takeWhile P s @ q, r)) (match_seq (Lit l # as) (dropWhile P s)))"
    using assms by (intro greedy_plus_bind match_seq_Lit_mismatch)
  finally show ?thesis .
qed

lemma match_seq_Cls:
  "match_seq (Cls P # as) s =
     (case s of [] \<Rightarrow> [] | c # cs \<Rightarrow> if P c then map (\<lambda>(q, r). (c # q, r)) (match_seq as cs) else [])"
  by (cases s) auto

lemma match_seq_Rep:
  "match_seq [Rep n P] s =
     (if n \<le> length s \<and> list_all P (take n s) then [(take n s, drop n s)] else [])"
  by simp

lemma match_seq_PlusLazy: "match_seq [PlusLazy P] s = lazy_plus P s"
  by (simp add: case_prod_unfold)

subsection \<open>Set view\<close>

lemma in_greedy_plus: "(p, r) \<in> set (greedy_plus P s) \<longleftrightarrow> s = p @ r \<and> p \<noteq> [] \<and> list_all P p"
proof (induction s arbitrary: p)
  case Nil
  then show ?case by simp
next
  case (Cons c cs)
  show ?case
  proof (cases p)
    case Nil
    then show ?thesis by auto
  next
    case (Cons a p')
    then show ?thesis using Cons.IH [of p'] by (cases p') auto
  qed
qed

lemma in_lazy_plus: "(p, r) \<in> set (lazy_plus P s) \<longleftrightarrow> s = p @ r \<and> p \<noteq> [] \<and> list_all P p"
proof (induction s arbitrary: p)
  case Nil
  then show ?case by simp
next
  case (Cons c cs)
  show ?case
  proof (cases p)
    case Nil
    then show ?thesis by auto
  next
    case (Cons a p')
    then show ?thesis using Cons.IH [of p'] by (cases p') auto
  qed
qed

lemma in_match_Lit: "(p, r) \<in> set (match_atom (Lit l) s) \<longleftrightarrow> p = l \<and> s = l @ r"
  by (auto simp: ) (metis append_take_drop_id)

lemma in_match_Cls: "(p, r) \<in> set (match_atom (Cls P) s) \<longleftrightarrow> (\<exists>c. p = [c] \<and> P c \<and> s = c # r)"
  by (cases s) auto

lemma in_match_Rep: "(p, r) \<in> set (match_atom (Rep n P) s) \<longleftrightarrow> length p = n \<and> list_all P p \<and> s = p @ r"
  by auto

lemma in_concat_bind:
  "(x, r') \<in> set (concat (map (\<lambda>(p, r). map (\<lambda>(q, r'). (f p q, r')) (k r)) xs)) \<longleftrightarrow>
     (\<exists>p r q. (p, r) \<in> set xs \<and> (q, r') \<in> set (k r) \<and> x = f p q)"
proof (induction xs)
  case Nil
  then show ?case by simp
next
  case (Cons y ys)
  let ?F = "\<lambda>(p, r). map (\<lambda>(q, r'). (f p q, r')) (k r)"
  obtain p r where y: "y = (p, r)" by (cases y)
  have a: "(x, r') \<in> set (?F y) \<longleftrightarrow> (\<exists>q. (q, r') \<in> set (k r) \<and> x = f p q)"
    unfolding y by (force simp: image_iff)
  have b: "(x, r') \<in> set (concat (map ?F (y # ys))) \<longleftrightarrow>
      (x, r') \<in> set (?F y) \<or> (x, r') \<in> set (concat (map ?F ys))"
    by simp
  have c: "(\<exists>p0 r0 q. (p0, r0) \<in> set (y # ys) \<and> (q, r') \<in> set (k r0) \<and> x = f p0 q) \<longleftrightarrow>
      (\<exists>q. (q, r') \<in> set (k r) \<and> x = f p q) \<or>
      (\<exists>p0 r0 q. (p0, r0) \<in> set ys \<and> (q, r') \<in> set (k r0) \<and> x = f p0 q)"
    unfolding y by auto
  show ?case unfolding b c a Cons.IH ..
qed

lemma in_match_seq_Cons:
  "(x, r') \<in> set (match_seq (a # as) s) \<longleftrightarrow>
     (\<exists>p r q. (p, r) \<in> set (match_atom a s) \<and> (q, r') \<in> set (match_seq as r) \<and> x = p @ q)"
  unfolding match_seq.simps by (rule in_concat_bind)

lemma in_match_groups_Cons:
  "(x, r') \<in> set (match_groups (g # gs) s) \<longleftrightarrow>
     (\<exists>p r qs. (p, r) \<in> set (match_seq g s) \<and> (qs, r') \<in> set (match_groups gs r) \<and> x = p # qs)"
  unfolding match_groups.simps by (rule in_concat_bind)

lemma in_match_seq_Nil: "(x, r) \<in> set (match_seq [] s) \<longleftrightarrow> x = [] \<and> r = s"
  by auto

lemma in_match_groups_Nil: "(x, r) \<in> set (match_groups [] s) \<longleftrightarrow> x = [] \<and> r = s"
  by auto

lemmas in_match =
  in_match_seq_Nil in_match_seq_Cons in_match_Lit in_match_Cls in_match_Rep in_greedy_plus in_lazy_plus
  match_atom.simps(4,5)

lemma in_lit_plus_lit:
  "(g, r) \<in> set (match_seq [Lit a, Plus P, Lit b] s) \<longleftrightarrow>
     (\<exists>w. g = a @ w @ b \<and> w \<noteq> [] \<and> list_all P w \<and> s = g @ r)"
  unfolding in_match by auto

lemma in_rep: "(g, r) \<in> set (match_seq [Rep n P] s) \<longleftrightarrow> length g = n \<and> list_all P g \<and> s = g @ r"
  unfolding in_match by auto

lemma match_seq_ConsI:
  "(p, r) \<in> set (match_atom a s) \<Longrightarrow> (q, r') \<in> set (match_seq as r) \<Longrightarrow>
   (p @ q, r') \<in> set (match_seq (a # as) s)"
  unfolding in_match_seq_Cons by blast

lemma in_lit_plus_lit_cls_lit:
  "(g, r) \<in> set (match_seq [Lit a, Plus P, Lit b, Cls C, Lit c] s) \<longleftrightarrow>
     (\<exists>w d. g = a @ w @ b @ [d] @ c \<and> w \<noteq> [] \<and> list_all P w \<and> C d \<and> s = g @ r)"
    (is "?L \<longleftrightarrow> ?R")
proof
  assume ?L
  then show ?R unfolding in_match by auto
next
  assume ?R
  then obtain w d where *: "g = a @ w @ b @ [d] @ c" "w \<noteq> []" "list_all P w" "C d" "s = g @ r"
    by blast
  have 2: "(c @ [], r) \<in> set (match_seq [Lit c] (c @ r))"
    by (rule match_seq_ConsI [where r = r]) (simp_all add: in_match_Lit del: match_atom.simps)
  have 3: "([d] @ c @ [], r) \<in> set (match_seq [Cls C, Lit c] (d # c @ r))"
    by (rule match_seq_ConsI [OF _ 2]) (simp add: in_match_Cls *(4) del: match_atom.simps)
  have 4: "(b @ [d] @ c @ [], r) \<in> set (match_seq [Lit b, Cls C, Lit c] (b @ d # c @ r))"
    by (rule match_seq_ConsI [OF _ 3]) (simp add: in_match_Lit del: match_atom.simps)
  have 5: "(w @ b @ [d] @ c @ [], r) \<in> set (match_seq [Plus P, Lit b, Cls C, Lit c] (w @ b @ d # c @ r))"
    by (rule match_seq_ConsI [OF _ 4]) (simp add: in_greedy_plus * del: greedy_plus.simps)
  have "(a @ w @ b @ [d] @ c @ [], r) \<in> set (match_seq [Lit a, Plus P, Lit b, Cls C, Lit c] (a @ w @ b @ d # c @ r))"
    by (rule match_seq_ConsI [OF _ 5]) (simp add: in_match_Lit del: match_atom.simps)
  then show ?L using * by simp
qed

lemma in_plus_lazy:
  "(g, r) \<in> set (match_seq [PlusLazy P] s) \<longleftrightarrow> g \<noteq> [] \<and> list_all P g \<and> s = g @ r"
  unfolding in_match by auto

lemma in_lit: "(g, r) \<in> set (match_seq [Lit l] s) \<longleftrightarrow> g = l \<and> s = g @ r"
  unfolding in_match by auto

subsection \<open>Deterministic groups\<close>

lemma singleton_iff_member: "length xs \<le> 1 \<Longrightarrow> xs = [x] \<longleftrightarrow> x \<in> set xs"
  by (cases xs) auto

lemma length_lit_plus_lit:
  assumes "b \<noteq> []" "\<not> P (hd b)"
  shows "length (match_seq (Lit a # Plus P # Lit b # as) s) \<le> length (match_seq as (drop (length b) (dropWhile P (drop (length a) s))))"
  using assms by (simp add: match_seq_Lit match_seq_Plus_Lit del: match_seq.simps)

lemma length_cls_lit: "length (match_seq [Cls C, Lit c] s) \<le> 1"
  by (cases s) auto

lemma length_rep: "length (match_seq [Rep n P] s) \<le> 1"
  by simp

lemma re_match_Cons_det:
  assumes "length (match_seq g s) \<le> 1"
  shows "re_match (g # gs) s =
     (case match_seq g s of [] \<Rightarrow> None
      | (p, r) # _ \<Rightarrow> map_option (\<lambda>(ps, r'). (p # ps, r')) (re_match gs r))"
proof (cases "match_seq g s")
  case Nil
  then show ?thesis by (simp add: re_match_def first_of_def)
next
  case (Cons x xs)
  with assms have xs: "xs = []" by simp
  obtain p r where x: "x = (p, r)" by (cases x)
  show ?thesis
    unfolding re_match_def first_of_def using Cons xs x
    by (cases "match_groups gs r") (auto simp: case_prod_unfold)
qed

lemma re_match_Cons_det_iff:
  assumes "length (match_seq g s) \<le> 1"
  shows "re_match (g # gs) s = Some (m, rest) \<longleftrightarrow>
     (\<exists>p r ps. (p, r) \<in> set (match_seq g s) \<and> re_match gs r = Some (ps, rest) \<and> m = p # ps)"
proof (cases "match_seq g s")
  case Nil
  then show ?thesis using re_match_Cons_det [OF assms, of gs] by simp
next
  case (Cons x xs)
  with assms have xs: "xs = []" by simp
  obtain p r where x: "x = (p, r)" by (cases x)
  show ?thesis
    using re_match_Cons_det [OF assms, of gs] Cons xs x by auto
qed

subsection \<open>The lazy path and the closing tag\<close>

lemma tail_map:
  "concat (map ((\<lambda>(p, r). map (\<lambda>(ps, r'). (p # ps, r')) (k r)) \<circ> (\<lambda>(p, r). (c # p, r))) xs)
   = map (\<lambda>(qs, r'). ((c # hd qs) # tl qs, r'))
       (concat (map (\<lambda>(p, r). map (\<lambda>(ps, r'). (p # ps, r')) (k r)) xs))"
  by (induction xs) auto

lemma tail_unfold:
  "match_groups [[PlusLazy P], [Lit z]] s =
     concat (map (\<lambda>(p, r). map (\<lambda>(ps, r'). (p # ps, r')) (match_groups [[Lit z]] r)) (lazy_plus P s))"
  unfolding match_groups.simps(2) [of "[PlusLazy P]"] match_seq_PlusLazy ..

lemma tail_Cons:
  "match_groups [[PlusLazy P], [Lit z]] (c # cs) =
     (if P c then
        (if take (length z) cs = z then [([[c], z], drop (length z) cs)] else [])
        @ map (\<lambda>(qs, r'). ((c # hd qs) # tl qs, r')) (match_groups [[PlusLazy P], [Lit z]] cs)
      else [])"
proof (cases "P c")
  case False
  then show ?thesis unfolding tail_unfold by simp
next
  case True
  let ?F = "\<lambda>(p, r). map (\<lambda>(ps, r'). (p # ps, r')) (match_groups [[Lit z]] r)"
  have "concat (map ?F (lazy_plus P (c # cs))) =
      ?F ([c], cs) @ concat (map (?F \<circ> (\<lambda>(p, r). (c # p, r))) (lazy_plus P cs))"
    using True by simp
  also have "?F ([c], cs) = (if take (length z) cs = z then [([[c], z], drop (length z) cs)] else [])"
    by simp
  also have "concat (map (?F \<circ> (\<lambda>(p, r). (c # p, r))) (lazy_plus P cs)) =
      map (\<lambda>(qs, r'). ((c # hd qs) # tl qs, r')) (concat (map ?F (lazy_plus P cs)))"
    by (rule tail_map)
  finally show ?thesis using True unfolding tail_unfold by simp
qed

lemma tail_Nil: "match_groups [[PlusLazy P], [Lit z]] [] = []"
  by simp

lemma first_of_map: "first_of (map f xs) = map_option f (first_of xs)"
  by (cases xs) (auto simp: first_of_def)

lemma first_of_Cons: "first_of (x # xs) = Some x"
  by (simp add: first_of_def)

lemma first_of_Nil: "first_of [] = None"
  by (simp add: first_of_def)

lemma first_of_None_iff: "first_of xs = None \<longleftrightarrow> xs = []"
  by (cases xs) (auto simp: first_of_def)

lemma first_of_SomeD: "first_of xs = Some x \<Longrightarrow> x \<in> set xs"
  by (cases xs) (auto simp: first_of_def)

lemma re_match_tail:
  "re_match [[PlusLazy P], [Lit z]] r = Some (m, r') \<Longrightarrow>
     \<exists>p. m = [p, z] \<and> p \<noteq> [] \<and> list_all P p \<and> r = p @ z @ r' \<and>
         (\<forall>r''. re_match [[PlusLazy P], [Lit z]] (p @ z @ r'') = Some ([p, z], r''))"
proof (induction r arbitrary: m)
  case Nil
  then show ?case unfolding re_match_def tail_Nil by (simp add: first_of_Nil)
next
  case (Cons c cs)
  let ?T = "match_groups [[PlusLazy P], [Lit z]]"
  let ?H = "\<lambda>(qs, r'). ((c # hd qs) # tl qs, r')"
  from Cons.prems have c: "P c"
    unfolding re_match_def tail_Cons by (auto simp: first_of_Nil split: if_splits)
  show ?case
  proof (cases "take (length z) cs = z")
    case True
    then have cs: "cs = z @ drop (length z) cs"
      by (metis append_take_drop_id)
    from Cons.prems True c have m: "m = [[c], z]" "r' = drop (length z) cs"
      unfolding re_match_def tail_Cons by (auto simp: first_of_Cons)
    have "\<forall>r''. re_match [[PlusLazy P], [Lit z]] ([c] @ z @ r'') = Some ([[c], z], r'')"
      unfolding re_match_def using c by (simp add: tail_Cons first_of_Cons del: match_groups.simps)
    with m c cs show ?thesis by auto
  next
    case False
    with c have eq: "?T (c # cs) = map ?H (?T cs)"
      by (simp add: tail_Cons del: match_groups.simps)
    from Cons.prems have "map_option ?H (re_match [[PlusLazy P], [Lit z]] cs) = Some (m, r')"
      unfolding re_match_def eq first_of_map .
    then obtain m0 where m0: "re_match [[PlusLazy P], [Lit z]] cs = Some (m0, r')"
      "m = (c # hd m0) # tl m0"
      by (auto split: prod.splits)
    from Cons.IH [OF m0(1)] obtain p where p: "m0 = [p, z]" "p \<noteq> []" "list_all P p"
      "cs = p @ z @ r'" "\<And>r''. re_match [[PlusLazy P], [Lit z]] (p @ z @ r'') = Some ([p, z], r'')"
      by blast
    have tk: "take (length z) (p @ z @ r'') = take (length z) (p @ z @ r')" for r''
    proof -
      have "take (length z) ((p @ z) @ x) = take (length z) (p @ z)" for x
        by simp
      from this [of r''] this [of r'] show ?thesis by simp
    qed
    have "re_match [[PlusLazy P], [Lit z]] ((c # p) @ z @ r'') = Some ([c # p, z], r'')" for r''
    proof -
      have "take (length z) (p @ z @ r'') \<noteq> z" using tk False p(4) by simp
      then have "?T (c # p @ z @ r'') = map ?H (?T (p @ z @ r''))"
        using c by (simp add: tail_Cons del: match_groups.simps)
      then have "re_match [[PlusLazy P], [Lit z]] ((c # p) @ z @ r'') =
          map_option ?H (re_match [[PlusLazy P], [Lit z]] (p @ z @ r''))"
        unfolding re_match_def by (simp add: first_of_map del: match_groups.simps)
      then show ?thesis using p(5) [of r''] by simp
    qed
    with p m0 c show ?thesis by auto
  qed
qed

lemma re_match_tail_complete:
  assumes "p \<noteq> []" "list_all P p"
  shows "re_match [[PlusLazy P], [Lit z]] (p @ z @ r) \<noteq> None"
proof -
  have "(p, z @ r) \<in> set (match_seq [PlusLazy P] (p @ z @ r))"
    using assms by (simp add: in_plus_lazy del: match_seq.simps)
  moreover have "([z], r) \<in> set (match_groups [[Lit z]] (z @ r))"
    by simp
  ultimately have "([p, z], r) \<in> set (match_groups [[PlusLazy P], [Lit z]] (p @ z @ r))"
    unfolding in_match_groups_Cons [of _ _ "[PlusLazy P]"] by blast
  then show ?thesis
    unfolding re_match_def first_of_None_iff by (auto simp del: match_groups.simps)
qed

subsection \<open>A match of \<open>FILE_RE\<close>\<close>

lemma not_space_m: "\<not> is_space (hd (py_str ''md5='' @ dquote))"
  by (simp add: py_str_def is_space_def)

lemma not_space_i: "\<not> is_space (hd (py_str ''import='' @ dquote))"
  by (simp add: py_str_def is_space_def)

lemma length_group1: "length (match_seq [Lit (py_str ''<File''), Plus is_space, Lit (py_str ''md5='' @ dquote)] s) \<le> 1"
proof -
  have "py_str ''md5='' @ dquote \<noteq> []" by (simp add: dquote_def)
  from length_lit_plus_lit [where P = is_space and b = "py_str ''md5='' @ dquote" and as = "[]", OF this not_space_m]
  show ?thesis by simp
qed

lemma length_group3:
  "length (match_seq [Lit dquote, Plus is_space, Lit (py_str ''import='' @ dquote), Cls is_01,
       Lit (dquote @ py_str ''>'')] s) \<le> 1"
proof -
  have "py_str ''import='' @ dquote \<noteq> []" by (simp add: dquote_def)
  from length_lit_plus_lit [where P = is_space and b = "py_str ''import='' @ dquote"
      and as = "[Cls is_01, Lit (dquote @ py_str ''>'')]", OF this not_space_i]
  show ?thesis using length_cls_lit order_trans by blast
qed

lemma in_group1:
  "(g, r) \<in> set (match_seq [Lit (py_str ''<File''), Plus is_space, Lit (py_str ''md5='' @ dquote)] s)
     \<longleftrightarrow> is_group1 g \<and> s = g @ r"
  unfolding in_lit_plus_lit is_group1_def by auto

lemma in_group2: "(g, r) \<in> set (match_seq [Rep 32 is_hex] s) \<longleftrightarrow> is_group2 g \<and> s = g @ r"
  unfolding in_rep is_group2_def by auto

lemma in_group3:
  "(g, r) \<in> set (match_seq [Lit dquote, Plus is_space, Lit (py_str ''import='' @ dquote), Cls is_01,
       Lit (dquote @ py_str ''>'')] s) \<longleftrightarrow> is_group3 g \<and> s = g @ r"
  unfolding in_lit_plus_lit_cls_lit is_group3_def by auto

lemma FILE_RE_match_iff:
  "re_match FILE_RE s = Some (m, rest) \<longleftrightarrow>
     (\<exists>g1 g2 g3 q r3. is_group1 g1 \<and> is_group2 g2 \<and> is_group3 g3 \<and> s = g1 @ g2 @ g3 @ r3 \<and>
        re_match [[PlusLazy is_dot], [Lit close_tag]] r3 = Some (q, rest) \<and> m = g1 # g2 # g3 # q)"
  unfolding FILE_RE_def close_tag_def [symmetric]
    re_match_Cons_det_iff [OF length_group1] re_match_Cons_det_iff [OF length_rep]
    re_match_Cons_det_iff [OF length_group3] in_group1 in_group2 in_group3
  by blast

lemma FILE_RE_match_shape:
  assumes "re_match FILE_RE s = Some (m, rest)"
  shows "\<exists>g1 g2 g3 g4. m = [g1, g2, g3, g4, close_tag] \<and> is_group1 g1 \<and> is_group2 g2 \<and>
     is_group3 g3 \<and> is_group4 g4 \<and> s = g1 @ g2 @ g3 @ g4 @ close_tag @ rest"
proof -
  from assms obtain g1 g2 g3 q r3 where *: "is_group1 g1" "is_group2 g2" "is_group3 g3"
    "s = g1 @ g2 @ g3 @ r3" "re_match [[PlusLazy is_dot], [Lit close_tag]] r3 = Some (q, rest)"
    "m = g1 # g2 # g3 # q"
    unfolding FILE_RE_match_iff by blast
  from re_match_tail [OF *(5)] obtain p where "q = [p, close_tag]" "p \<noteq> []" "list_all is_dot p"
    "r3 = p @ close_tag @ rest"
    by blast
  with * show ?thesis by (auto simp: is_group4_def)
qed

lemma FILE_RE_match_swap:
  assumes "re_match FILE_RE s = Some ([g1, g2, g3, g4, g5], rest)" "is_group2 h"
  shows "re_match FILE_RE (g1 @ h @ g3 @ g4 @ g5 @ rest') = Some ([g1, h, g3, g4, g5], rest')"
proof -
  from assms(1) obtain r3 where *: "is_group1 g1" "is_group2 g2" "is_group3 g3"
    "re_match [[PlusLazy is_dot], [Lit close_tag]] r3 = Some ([g4, g5], rest)"
    unfolding FILE_RE_match_iff by blast
  from re_match_tail [OF *(4)] have "g5 = close_tag"
    "re_match [[PlusLazy is_dot], [Lit close_tag]] (g4 @ g5 @ rest') = Some ([g4, g5], rest')"
    by auto
  with * assms(2) show ?thesis
    unfolding FILE_RE_match_iff by blast
qed

lemma FILE_RE_match_complete:
  assumes "is_group1 g1" "is_group2 g2" "is_group3 g3" "is_group4 g4"
  shows "re_match FILE_RE (g1 @ g2 @ g3 @ g4 @ close_tag @ rest) \<noteq> None"
proof -
  from assms(4) have "re_match [[PlusLazy is_dot], [Lit close_tag]] (g4 @ close_tag @ rest) \<noteq> None"
    by (intro re_match_tail_complete) (auto simp: is_group4_def)
  then obtain q rest' where "re_match [[PlusLazy is_dot], [Lit close_tag]] (g4 @ close_tag @ rest) = Some (q, rest')"
    by auto
  with assms have "re_match FILE_RE (g1 @ g2 @ g3 @ g4 @ close_tag @ rest) = Some (g1 # g2 # g3 # q, rest')"
    unfolding FILE_RE_match_iff by blast
  then show ?thesis by simp
qed

section \<open>The program\<close>

subsection \<open>\<open>FILE_RE.sub\<close>\<close>

text \<open>
  \<open>FILE_RE.sub(replace_match, text)\<close> scans the text from left to right. Where a match
  starts, the callback is called on it, its result stands for the match in the new text,
  and the scan goes on behind the match; a character at which no match starts is copied.
  \<open>finditer\<close> is the scan: the characters outside every match and the matches (their five
  groups), in order. A match of \<open>FILE_RE\<close> is never empty, so the scan ends.
\<close>

datatype token = Gap nat | Entry "str list"

lemma FILE_RE_match_shorter:
  assumes "re_match FILE_RE s = Some (m, rest)"
  shows "length rest < length s"
proof -
  from FILE_RE_match_shape [OF assms] obtain g1 g2 g3 g4 where
    "is_group2 g2" "s = g1 @ g2 @ g3 @ g4 @ close_tag @ rest"
    by blast
  then show ?thesis by (simp add: is_group2_def)
qed

function finditer :: "str \<Rightarrow> token list" where
  "finditer [] = []"
| "finditer (c # cs) =
     (case re_match FILE_RE (c # cs) of
        None \<Rightarrow> Gap c # finditer cs
      | Some (m, rest) \<Rightarrow> Entry m # finditer rest)"
  by pat_completeness auto
termination
proof (relation "measure length")
  show "wf (measure length)" by simp
next
  fix c cs
  show "(cs, c # cs) \<in> measure length" by simp
next
  fix c cs x m rest
  assume "re_match FILE_RE (c # cs) = Some x" "(m, rest) = x"
  then have "length rest < length (c # cs)"
    using FILE_RE_match_shorter by metis
  then show "(rest, c # cs) \<in> measure length" by simp
qed

text \<open>
  The callback prints and counts, and reading a file may raise: it takes the state and
  returns the new state, with the replacement text or the error. An error ends the
  substitution where it is raised; what was printed before stays printed.
\<close>

fun sub_tokens ::
  "(str list \<Rightarrow> 's \<Rightarrow> ('e + str) \<times> 's) \<Rightarrow> token list \<Rightarrow> 's \<Rightarrow> ('e + str) \<times> 's" where
  "sub_tokens repl [] st = (Inr [], st)"
| "sub_tokens repl (Gap c # ts) st =
     (case sub_tokens repl ts st of
        (Inl e, st') \<Rightarrow> (Inl e, st')
      | (Inr t, st') \<Rightarrow> (Inr (c # t), st'))"
| "sub_tokens repl (Entry m # ts) st =
     (case repl m st of
        (Inl e, st') \<Rightarrow> (Inl e, st')
      | (Inr r, st') \<Rightarrow>
          (case sub_tokens repl ts st' of
             (Inl e, st'') \<Rightarrow> (Inl e, st'')
           | (Inr t, st'') \<Rightarrow> (Inr (r @ t), st'')))"

definition re_sub ::
  "(str list \<Rightarrow> 's \<Rightarrow> ('e + str) \<times> 's) \<Rightarrow> str \<Rightarrow> 's \<Rightarrow> ('e + str) \<times> 's" where
  "re_sub repl text st = sub_tokens repl (finditer text) st"

subsection \<open>The file system and the run\<close>

text \<open>
  The script reads the manifest as text, asks for every entry whether
  \<open>MODINFO.parent / rel_path\<close> exists and reads the bytes of those that do. All reads come
  before the one write, so they see the files as they are when the run starts. Printing
  and writing the manifest are taken to succeed.

  \<open>read_text(encoding="utf-8")\<close> opens the manifest in text mode: the bytes are decoded as
  UTF-8 and every \<open>\r\n\<close> and every \<open>\r\<close> is read as \<open>\n\<close>. \<open>write_text\<close> writes every
  \<open>\n\<close> as the line separator of the platform and encodes the result as UTF-8.
\<close>

fun universal_newlines :: "str \<Rightarrow> str" where
  "universal_newlines [] = []"
| "universal_newlines [c] = [if c = 13 then 10 else c]"
| "universal_newlines (c # d # s) =
     (if c = 13 then (if d = 10 then 10 # universal_newlines s else 10 # universal_newlines (d # s))
      else c # universal_newlines (d # s))"

definition write_newlines :: "str \<Rightarrow> str \<Rightarrow> str" where
  "write_newlines sep t = concat (map (\<lambda>c. if c = 10 then sep else [c]) t)"

definition utf8_char :: "nat \<Rightarrow> byte list" where
  "utf8_char c =
     (if c < 128 then [of_nat c]
      else if c < 2048 then [of_nat (192 + c div 64), of_nat (128 + c mod 64)]
      else if c < 65536 then
        [of_nat (224 + c div 4096), of_nat (128 + c div 64 mod 64), of_nat (128 + c mod 64)]
      else
        [of_nat (240 + c div 262144), of_nat (128 + c div 4096 mod 64),
         of_nat (128 + c div 64 mod 64), of_nat (128 + c mod 64)])"

definition utf8_encode :: "str \<Rightarrow> byte list" where
  "utf8_encode s = concat (map utf8_char s)"

text \<open>
  The world a run finds. UTF-8 decoding is one-to-one on what it accepts, so the manifest
  file is given by its decoded characters, line ends as they stand in the file (\<open>None\<close>
  when \<open>read_text\<close> raises: no such file, not readable, not UTF-8); its bytes are the
  encoding of these characters. A relative path of an entry may lead to the manifest file
  itself (\<open>self_named\<close>); at every other relative path there is nothing, a file whose bytes
  cannot be read (\<open>read_bytes\<close> raises: a directory, no permission), or a file with its
  bytes. \<open>crlf\<close> says that the platform's line separator is \<open>\r\n\<close> rather than \<open>\n\<close>.
\<close>

datatype fstatus = Absent | Unreadable | Content "byte list"

datatype error = ManifestReadError | FileReadError str

record world =
  disk :: "str option"
  others :: "str \<Rightarrow> fstatus"
  self_named :: "str \<Rightarrow> bool"
  crlf :: bool

definition linesep :: "world \<Rightarrow> str" where
  "linesep w = (if crlf w then [13, 10] else [10])"

text \<open>What \<open>MODINFO.read_text(encoding="utf-8")\<close> returns.\<close>

definition manifest :: "world \<Rightarrow> str option" where
  "manifest w = map_option universal_newlines (disk w)"

text \<open>
  What \<open>exists()\<close> and \<open>read_bytes()\<close> find at \<open>MODINFO.parent / rel_path\<close>. (With no
  readable manifest the run ends before it asks.)
\<close>

definition files :: "world \<Rightarrow> str \<Rightarrow> fstatus" where
  "files w p =
     (if self_named w p
      then (case disk w of None \<Rightarrow> Absent | Some raw \<Rightarrow> Content (utf8_encode raw))
      else others w p)"

text \<open>The state of a run: the lines printed so far and the counter \<open>updated\<close>.\<close>

record run_state =
  out :: "str list"
  updated :: nat

text \<open>\<open>m.group(0)\<close> is the whole match, \<open>m.group(i)\<close> its \<open>i\<close>-th group.\<close>

fun m_group :: "str list \<Rightarrow> nat \<Rightarrow> str" where
  "m_group m 0 = concat m"
| "m_group m (Suc i) = m ! i"

text \<open>
  \<^verbatim>\<open>
  def replace_match(m):
      nonlocal updated
      rel_path = m.group(4)
      file_path = MODINFO.parent / rel_path
      if not file_path.exists():
          print(f"  MISSING: {rel_path}")
          return m.group(0)
      new_md5 = md5_of(file_path)
      old_md5 = m.group(2).upper()
      if old_md5 != new_md5:
          print(f"  {rel_path}: {old_md5} -> {new_md5}")
          updated += 1
      return f"{m.group(1)}{new_md5}{m.group(3)}{m.group(4)}{m.group(5)}"
  \<close>
\<close>

definition replace_match ::
  "(str \<Rightarrow> fstatus) \<Rightarrow> str list \<Rightarrow> run_state \<Rightarrow> (error + str) \<times> run_state" where
  "replace_match fs m st =
     (let rel_path = m_group m 4 in
      case fs rel_path of
        Absent \<Rightarrow>
          (Inr (m_group m 0), st\<lparr>out := out st @ [py_str ''  MISSING: '' @ rel_path]\<rparr>)
      | Unreadable \<Rightarrow> (Inl (FileReadError rel_path), st)
      | Content bs \<Rightarrow>
          (let new_md5 = md5_of bs;
               old_md5 = upper (m_group m 2);
               st' = (if old_md5 \<noteq> new_md5
                      then st\<lparr>out := out st @
                                [py_str ''  '' @ rel_path @ py_str '': '' @ old_md5
                                 @ py_str '' -> '' @ new_md5],
                              updated := updated st + 1\<rparr>
                      else st)
           in (Inr (m_group m 1 @ new_md5 @ m_group m 3 @ m_group m 4 @ m_group m 5), st')))"

text \<open>\<open>str(n)\<close> of a number that is not negative: its decimal digits.\<close>

function decimal :: "nat \<Rightarrow> str" where
  "decimal n = (if n < 10 then [48 + n] else decimal (n div 10) @ [48 + n mod 10])"
  by pat_completeness auto
termination
  by (relation "measure id") auto

declare decimal.simps [simp del]

text \<open>
  What a run leaves behind: the error it raised, if any; the lines on standard output;
  the value of \<open>updated\<close> when it ended; and the text it wrote to the manifest, \<open>None\<close>
  when \<open>write_text\<close> was not called.
  \<^verbatim>\<open>
  def main():
      text = MODINFO.read_text(encoding="utf-8")
      updated = 0
      ...
      new_text = FILE_RE.sub(replace_match, text)
      if updated:
          MODINFO.write_text(new_text, encoding="utf-8")
          print(f"Updated {updated} hash(es).")
      else:
          print("All hashes up to date.")
  \<close>
\<close>

record outcome =
  raised :: "error option"
  stdout :: "str list"
  count :: nat
  wrote :: "str option"

definition main :: "world \<Rightarrow> outcome" where
  "main w =
     (case manifest w of
        None \<Rightarrow> \<lparr>raised = Some ManifestReadError, stdout = [], count = 0, wrote = None\<rparr>
      | Some text \<Rightarrow>
          (case re_sub (replace_match (files w)) text \<lparr>out = [], updated = 0\<rparr> of
             (Inl e, st) \<Rightarrow>
               \<lparr>raised = Some e, stdout = out st, count = updated st, wrote = None\<rparr>
           | (Inr new_text, st) \<Rightarrow>
               if updated st \<noteq> 0
               then \<lparr>raised = None,
                     stdout = out st @ [py_str ''Updated '' @ decimal (updated st)
                                        @ py_str '' hash(es).''],
                     count = updated st, wrote = Some new_text\<rparr>
               else \<lparr>raised = None, stdout = out st @ [py_str ''All hashes up to date.''],
                     count = updated st, wrote = None\<rparr>))"

text \<open>
  The world after a run: the manifest file holds what \<open>write_text\<close> wrote, if it was
  called. The other files are what they were; an entry that names the manifest now finds
  the new bytes.
\<close>

definition after :: "world \<Rightarrow> world" where
  "after w =
     (case wrote (main w) of
        None \<Rightarrow> w
      | Some t \<Rightarrow> w\<lparr>disk := Some (write_newlines (linesep w) t)\<rparr>)"

text \<open>The bytes \<open>write_text(s, encoding="utf-8")\<close> puts into the file.\<close>

definition write_text :: "world \<Rightarrow> str \<Rightarrow> byte list" where
  "write_text w s = utf8_encode (write_newlines (linesep w) s)"

section \<open>The run, entry by entry\<close>

text \<open>
  The claims speak of entries, of their text before and after, of their log lines. These
  functions say, for one token of the scan, what the run makes of it: its text in the
  manifest, its text in the reconstructed document, the lines it prints, what it adds to
  the counter, whether it ends the run with an error. The lemmas below prove that
  \<open>main\<close> computes exactly these.
\<close>

fun tok_text :: "token \<Rightarrow> str" where
  "tok_text (Gap c) = [c]"
| "tok_text (Entry m) = m_group m 0"

definition new_entry :: "(str \<Rightarrow> fstatus) \<Rightarrow> str list \<Rightarrow> str" where
  "new_entry fs m =
     (case fs (m_group m 4) of
        Content bs \<Rightarrow> m_group m 1 @ md5_of bs @ m_group m 3 @ m_group m 4 @ m_group m 5
      | _ \<Rightarrow> m_group m 0)"

fun tok_new :: "(str \<Rightarrow> fstatus) \<Rightarrow> token \<Rightarrow> str" where
  "tok_new fs (Gap c) = [c]"
| "tok_new fs (Entry m) = new_entry fs m"

definition is_update :: "(str \<Rightarrow> fstatus) \<Rightarrow> str list \<Rightarrow> bool" where
  "is_update fs m =
     (case fs (m_group m 4) of Content bs \<Rightarrow> upper (m_group m 2) \<noteq> md5_of bs | _ \<Rightarrow> False)"

definition entry_lines :: "(str \<Rightarrow> fstatus) \<Rightarrow> str list \<Rightarrow> str list" where
  "entry_lines fs m =
     (case fs (m_group m 4) of
        Absent \<Rightarrow> [py_str ''  MISSING: '' @ m_group m 4]
      | Unreadable \<Rightarrow> []
      | Content bs \<Rightarrow>
          if upper (m_group m 2) \<noteq> md5_of bs
          then [py_str ''  '' @ m_group m 4 @ py_str '': '' @ upper (m_group m 2)
                @ py_str '' -> '' @ md5_of bs]
          else [])"

fun tok_lines :: "(str \<Rightarrow> fstatus) \<Rightarrow> token \<Rightarrow> str list" where
  "tok_lines fs (Gap c) = []"
| "tok_lines fs (Entry m) = entry_lines fs m"

fun tok_count :: "(str \<Rightarrow> fstatus) \<Rightarrow> token \<Rightarrow> nat" where
  "tok_count fs (Gap c) = 0"
| "tok_count fs (Entry m) = (if is_update fs m then 1 else 0)"

fun tok_fails :: "(str \<Rightarrow> fstatus) \<Rightarrow> token \<Rightarrow> bool" where
  "tok_fails fs (Gap c) = False"
| "tok_fails fs (Entry m) = (fs (m_group m 4) = Unreadable)"

fun entries_of :: "token list \<Rightarrow> str list list" where
  "entries_of [] = []"
| "entries_of (Gap c # ts) = entries_of ts"
| "entries_of (Entry m # ts) = m # entries_of ts"

definition entries :: "str \<Rightarrow> str list list" where
  "entries text = entries_of (finditer text)"

definition summary :: "nat \<Rightarrow> str" where
  "summary n =
     (if n \<noteq> 0 then py_str ''Updated '' @ decimal n @ py_str '' hash(es).''
      else py_str ''All hashes up to date.'')"

section \<open>Properties of the run\<close>

subsection \<open>The digest is 32 uppercase hexadecimal digits\<close>

definition is_upper_hex :: "nat \<Rightarrow> bool" where
  "is_upper_hex c \<longleftrightarrow> (48 \<le> c \<and> c \<le> 57) \<or> (65 \<le> c \<and> c \<le> 70)"

lemma length_md5: "length (md5 bs) = 16"
  by (simp add: md5_def le_bytes_def split: prod.splits)

lemma length_hexdigest: "length (hexdigest bs) = 2 * length bs"
  unfolding hexdigest_def by (induction bs) auto

lemma length_md5_of: "length (md5_of bs) = 32"
  by (simp add: md5_of_def upper_def length_hexdigest length_md5)

lemma high_nibble: "unat (drop_bit 4 (b :: byte)) < 16"
proof -
  have "unat b < 256" using unsigned_less [of b, where ?'a = nat] by simp
  then show ?thesis by (simp add: drop_bit_eq_div unat_div)
qed

lemma low_nibble: "unat ((b :: byte) AND 15) < 16"
proof -
  have "unat (b AND 15) \<le> unat (15 :: byte)"
    by (rule word_and_le1 [THEN word_le_nat_alt [THEN iffD1]])
  then show ?thesis by simp
qed

lemma upper_hex_digit: "n < 16 \<Longrightarrow> is_upper_hex (upper_char (hex_digit n))"
  by (auto simp: is_upper_hex_def upper_char_def hex_digit_def)

lemma md5_of_upper_hex: "list_all is_upper_hex (md5_of bs)"
  unfolding md5_of_def upper_def hexdigest_def list_all_iff
  by (auto simp: upper_hex_digit high_nibble low_nibble)

lemma is_upper_hex_is_hex: "is_upper_hex c \<Longrightarrow> is_hex c"
  by (auto simp: is_upper_hex_def is_hex_def)

lemma md5_of_group2: "is_group2 (md5_of bs)"
  unfolding is_group2_def using md5_of_upper_hex [of bs] length_md5_of
  by (auto simp: list_all_iff is_upper_hex_is_hex)

lemma upper_md5_of: "upper (md5_of bs) = md5_of bs"
proof -
  have "is_upper_hex c \<Longrightarrow> upper_char c = c" for c
    by (auto simp: is_upper_hex_def upper_char_def)
  then show ?thesis using md5_of_upper_hex [of bs]
    unfolding upper_def list_all_iff by (simp add: map_idI)
qed

text \<open>Two known answers of RFC 1321's test suite: one block, and two blocks.\<close>

lemma md5_of_abc: "md5_of [0x61, 0x62, 0x63] = py_str ''900150983CD24FB0D6963F7D28E17F72''"
  by code_simp

lemma md5_of_digits:
  "md5_of (concat (replicate 8 [0x31, 0x32, 0x33, 0x34, 0x35, 0x36, 0x37, 0x38, 0x39, 0x30]))
     = py_str ''57EDF4A22BE3C955AC49DA2E2107B67A''"
  by code_simp

subsection \<open>What \<open>main\<close> computes\<close>

lemma replace_match_eq:
  "replace_match fs m st =
     (case fs (m_group m 4) of
        Unreadable \<Rightarrow> (Inl (FileReadError (m_group m 4)), st)
      | _ \<Rightarrow> (Inr (new_entry fs m),
           st\<lparr>out := out st @ entry_lines fs m,
              updated := updated st + (if is_update fs m then 1 else 0)\<rparr>))"
  by (cases "fs (m_group m 4)")
     (simp_all add: replace_match_def new_entry_def entry_lines_def is_update_def Let_def)

lemma sub_tokens_ok:
  assumes "\<forall>t \<in> set ts. \<not> tok_fails fs t"
  shows "sub_tokens (replace_match fs) ts st =
     (Inr (concat (map (tok_new fs) ts)),
      st\<lparr>out := out st @ concat (map (tok_lines fs) ts),
         updated := updated st + sum_list (map (tok_count fs) ts)\<rparr>)"
  using assms
proof (induction ts arbitrary: st)
  case Nil
  then show ?case by simp
next
  case (Cons t ts)
  show ?case
  proof (cases t)
    case (Gap c)
    with Cons show ?thesis by simp
  next
    case (Entry m)
    with Cons.prems have "fs (m_group m 4) \<noteq> Unreadable" by simp
    then have "replace_match fs m st = (Inr (new_entry fs m),
           st\<lparr>out := out st @ entry_lines fs m,
              updated := updated st + (if is_update fs m then 1 else 0)\<rparr>)"
      unfolding replace_match_eq by (cases "fs (m_group m 4)") simp_all
    with Cons Entry show ?thesis by simp
  qed
qed

lemma sub_tokens_fail:
  assumes "t \<in> set ts" "tok_fails fs t"
  shows "\<exists>e st'. sub_tokens (replace_match fs) ts st = (Inl e, st')"
  using assms
proof (induction ts arbitrary: st)
  case Nil
  then show ?case by simp
next
  case (Cons u us)
  show ?case
  proof (cases u)
    case (Gap c)
    with Cons.prems have "t \<in> set us" by auto
    from Cons.IH [OF this Cons.prems(2), of st] obtain e st' where
      "sub_tokens (replace_match fs) us st = (Inl e, st')" by blast
    then have "sub_tokens (replace_match fs) (Gap c # us) st = (Inl e, st')" by simp
    then show ?thesis unfolding Gap by blast
  next
    case (Entry m)
    show ?thesis
    proof (cases "fs (m_group m 4) = Unreadable")
      case True
      then have "sub_tokens (replace_match fs) (Entry m # us) st = (Inl (FileReadError (m_group m 4)), st)"
        by (simp add: replace_match_eq)
      then show ?thesis unfolding Entry by blast
    next
      case False
      then obtain st1 where r: "replace_match fs m st = (Inr (new_entry fs m), st1)"
        unfolding replace_match_eq by (cases "fs (m_group m 4)") simp_all
      from False Entry Cons.prems have "t \<in> set us" by auto
      from Cons.IH [OF this Cons.prems(2), of st1] obtain e st' where
        "sub_tokens (replace_match fs) us st1 = (Inl e, st')" by blast
      with r have "sub_tokens (replace_match fs) (Entry m # us) st = (Inl e, st')" by simp
      then show ?thesis unfolding Entry by blast
    qed
  qed
qed

lemma main_ok:
  assumes "manifest w = Some text" "\<forall>t \<in> set (finditer text). \<not> tok_fails (files w) t"
  shows "main w =
     \<lparr>raised = None,
      stdout = concat (map (tok_lines (files w)) (finditer text))
               @ [summary (sum_list (map (tok_count (files w)) (finditer text)))],
      count = sum_list (map (tok_count (files w)) (finditer text)),
      wrote = (if sum_list (map (tok_count (files w)) (finditer text)) \<noteq> 0
               then Some (concat (map (tok_new (files w)) (finditer text))) else None)\<rparr>"
  unfolding main_def re_sub_def using assms
  by (simp add: sub_tokens_ok summary_def)

lemma main_fail:
  assumes "manifest w = Some text" "t \<in> set (finditer text)" "tok_fails (files w) t"
  shows "raised (main w) \<noteq> None \<and> wrote (main w) = None"
proof -
  from sub_tokens_fail [OF assms(2,3)] obtain e st' where
    "sub_tokens (replace_match (files w)) (finditer text) \<lparr>out = [], updated = 0\<rparr> = (Inl e, st')"
    by blast
  then show ?thesis unfolding main_def re_sub_def using assms(1) by simp
qed

lemma main_unreadable_manifest:
  "manifest w = None \<Longrightarrow>
   main w = \<lparr>raised = Some ManifestReadError, stdout = [], count = 0, wrote = None\<rparr>"
  by (simp add: main_def)

subsection \<open>Scanning the rewritten manifest\<close>

text \<open>
  A second run scans the text the first one wrote. That scan finds the same entries at the
  same places: rewriting replaces 32 hexadecimal digits between \<open>md5="\<close> and \<open>"\<close> by 32
  others, and no part of the pattern can tell such texts apart. \<open>hsim\<close> relates two texts
  that differ in this way only.
\<close>

definition md5_attr :: str where
  "md5_attr = py_str ''md5='' @ dquote"

inductive hsim :: "str \<Rightarrow> str \<Rightarrow> bool" where
  hsim_Nil: "hsim [] []"
| hsim_Cons: "hsim s t \<Longrightarrow> hsim (c # s) (c # t)"
| hsim_hash: "hsim s t \<Longrightarrow> is_group2 h \<Longrightarrow> is_group2 h' \<Longrightarrow>
     hsim (md5_attr @ h @ dquote @ s) (md5_attr @ h' @ dquote @ t)"

lemma hsim_refl: "hsim s s"
  by (induction s) (auto intro: hsim.intros)

lemma hsim_sym: "hsim s t \<Longrightarrow> hsim t s"
  by (induction rule: hsim.induct) (auto intro: hsim.intros)

lemma hsim_append_same: "hsim s t \<Longrightarrow> hsim (p @ s) (p @ t)"
  by (induction p) (auto intro: hsim.intros)

lemma hsim_length: "hsim s t \<Longrightarrow> length s = length t"
  by (induction rule: hsim.induct) (auto simp: is_group2_def)

lemma hsim_ConsE:
  assumes "hsim (c # s) t"
  obtains t' where "t = c # t'" "hsim s t'"
  | h h' s' t' where "c # s = md5_attr @ h @ dquote @ s'" "t = md5_attr @ h' @ dquote @ t'"
      "is_group2 h" "is_group2 h'" "hsim s' t'"
  using assms by (cases rule: hsim.cases) auto

lemma hsim_Cons_step:
  assumes "hsim (c # s) t" "c \<noteq> 109 \<or> (\<exists>d s'. s = d # s' \<and> d \<noteq> 100)"
  shows "\<exists>t'. t = c # t' \<and> hsim s t'"
  using assms(1)
proof (cases rule: hsim_ConsE)
  case (1 t')
  then show ?thesis by blast
next
  case (2 h h' s' t')
  from 2(1) have "c = 109 \<and> (\<exists>s''. s = 100 # s'')"
    by (simp add: md5_attr_def py_str_def)
  with assms(2) show ?thesis by auto
qed

fun no_md :: "str \<Rightarrow> bool" where
  "no_md [] = True"
| "no_md [c] = (c \<noteq> 109)"
| "no_md (c # d # l) = ((c \<noteq> 109 \<or> d \<noteq> 100) \<and> no_md (d # l))"

lemma hsim_lit:
  assumes "hsim (l @ s) t" "no_md l"
  shows "\<exists>t'. t = l @ t' \<and> hsim s t'"
  using assms
proof (induction l arbitrary: t rule: no_md.induct)
  case 1
  then show ?case by simp
next
  case (2 c)
  then have "\<exists>t'. t = c # t' \<and> hsim s t'"
    by (intro hsim_Cons_step) auto
  then show ?case by simp
next
  case (3 c d l)
  from 3(2,3) have "\<exists>t'. t = c # t' \<and> hsim ((d # l) @ s) t'"
    by (intro hsim_Cons_step) auto
  then obtain t1 where t1: "t = c # t1" "hsim ((d # l) @ s) t1" by blast
  from 3(1) [OF t1(2)] 3(3) obtain t' where "t1 = (d # l) @ t'" "hsim s t'" by auto
  with t1 show ?case by auto
qed

lemma no_md_no_m: "109 \<notin> set l \<Longrightarrow> no_md l"
  by (induction l rule: no_md.induct) auto

lemma not_hex_m: "is_hex c \<Longrightarrow> c \<noteq> 109"
  by (auto simp: is_hex_def)

lemma group2_no_m: "is_group2 h \<Longrightarrow> 109 \<notin> set h"
  unfolding is_group2_def list_all_iff using not_hex_m by blast

lemma hsim_hash_block:
  assumes "hsim (md5_attr @ h @ dquote @ s) t" "is_group2 h"
  shows "\<exists>h' t'. t = md5_attr @ h' @ dquote @ t' \<and> is_group2 h' \<and> hsim s t'"
proof -
  have m: "md5_attr @ h @ dquote @ s = 109 # (py_str ''d5='' @ dquote @ h @ dquote) @ s"
    by (simp add: md5_attr_def py_str_def)
  from assms(1) show ?thesis unfolding m
  proof (cases rule: hsim_ConsE)
    case (1 t')
    have "109 \<notin> set (py_str ''d5='' @ dquote @ h @ dquote)"
      using group2_no_m [OF assms(2)] by (simp add: py_str_def dquote_def)
    from hsim_lit [OF 1(2) no_md_no_m [OF this]] obtain t'' where
      "t' = (py_str ''d5='' @ dquote @ h @ dquote) @ t''" "hsim s t''" by blast
    with 1(1) assms(2) show ?thesis
      by (intro exI [of _ h] exI [of _ t'']) (simp add: md5_attr_def py_str_def)
  next
    case (2 h1 h1' s' t')
    from 2(1) have "md5_attr @ h @ dquote @ s = md5_attr @ h1 @ dquote @ s'"
      unfolding m [symmetric] by simp
    then have "h @ dquote @ s = h1 @ dquote @ s'" by simp
    moreover have "length h = length h1" using assms(2) 2(3) by (simp add: is_group2_def)
    ultimately have "s = s'" by simp
    with 2 show ?thesis by blast
  qed
qed

lemma close_tag_no_m: "109 \<notin> set close_tag"
  by (simp add: close_tag_def py_str_def)

lemma hash_block_no_lt:
  assumes "is_group2 h"
  shows "60 \<notin> set (md5_attr @ h @ dquote)" "list_all is_dot (md5_attr @ h @ dquote)"
proof -
  have "is_hex c \<Longrightarrow> c \<noteq> 60 \<and> c \<noteq> 10" for c by (auto simp: is_hex_def)
  then have "60 \<notin> set h" "10 \<notin> set h"
    using assms unfolding is_group2_def list_all_iff by blast+
  then show "60 \<notin> set (md5_attr @ h @ dquote)" "list_all is_dot (md5_attr @ h @ dquote)"
    by (auto simp: md5_attr_def py_str_def dquote_def is_dot_def list_all_iff)
qed

lemma append_eq_prefix_split:
  assumes "p @ z # r = x @ s" "z \<notin> set x"
  shows "\<exists>us. p = x @ us \<and> s = us @ z # r"
proof -
  from assms(1) obtain us where "(p = x @ us \<and> us @ z # r = s) \<or> (p @ us = x \<and> z # r = us @ s)"
    unfolding append_eq_append_conv2 by blast
  then show ?thesis
  proof
    assume "p = x @ us \<and> us @ z # r = s"
    then show ?thesis by blast
  next
    assume *: "p @ us = x \<and> z # r = us @ s"
    show ?thesis
    proof (cases us)
      case Nil
      with * show ?thesis by auto
    next
      case (Cons u us')
      with * have "z \<in> set x" by auto
      with assms(2) show ?thesis by simp
    qed
  qed
qed

lemma hsim_path:
  assumes "hsim (p @ close_tag @ rest) t" "list_all is_dot p"
  shows "\<exists>p' t'. t = p' @ close_tag @ t' \<and> length p' = length p \<and> list_all is_dot p' \<and> hsim rest t'"
  using assms
proof (induction p arbitrary: t rule: length_induct)
  case (1 p)
  show ?case
  proof (cases p)
    case Nil
    from hsim_lit [OF _ no_md_no_m [OF close_tag_no_m], of rest t] 1(2) Nil
    obtain t' where "t = close_tag @ t'" "hsim rest t'" by auto
    with Nil show ?thesis by auto
  next
    case (Cons c p1)
    from 1(2) have "hsim (c # p1 @ close_tag @ rest) t" unfolding Cons by simp
    then show ?thesis
    proof (cases rule: hsim_ConsE)
      case (1 t1)
      have "length p1 < length p" "list_all is_dot p1" using Cons "1.prems"(2) by auto
      with "1.IH" 1(2) obtain p1' t' where "t1 = p1' @ close_tag @ t'" "length p1' = length p1"
        "list_all is_dot p1'" "hsim rest t'" by blast
      with 1(1) Cons "1.prems"(2) show ?thesis
        by (intro exI [of _ "c # p1'"] exI [of _ t']) auto
    next
      case (2 h h' s' t')
      have z: "close_tag @ rest = 60 # (py_str ''/File>'' @ rest)"
        by (simp add: close_tag_def py_str_def)
      from 2(1) have "p @ 60 # (py_str ''/File>'' @ rest) = (md5_attr @ h @ dquote) @ s'"
        unfolding Cons z by simp
      from append_eq_prefix_split [OF this hash_block_no_lt(1) [OF 2(3)]]
      obtain us where us: "p = (md5_attr @ h @ dquote) @ us" "s' = us @ close_tag @ rest"
        unfolding z by blast
      have "length us < length p" "list_all is_dot us"
        using us(1) "1.prems"(2) by (auto simp: dquote_def)
      with "1.IH" 2(5) us(2) obtain us' t'' where *: "t' = us' @ close_tag @ t''"
        "length us' = length us" "list_all is_dot us'" "hsim rest t''" by blast
      have "length h = length h'" using 2(3,4) by (simp add: is_group2_def)
      with * 2(2) us(1) hash_block_no_lt(2) [OF 2(4)] show ?thesis
        by (intro exI [of _ "(md5_attr @ h' @ dquote) @ us'"] exI [of _ t'']) auto
    qed
  qed
qed

lemma no_md_append_no_m: "109 \<notin> set l1 \<Longrightarrow> no_md l2 \<Longrightarrow> no_md (l1 @ l2)"
proof (induction l1)
  case Nil
  then show ?case by simp
next
  case (Cons c l1)
  then show ?case by (cases "l1 @ l2") auto
qed

lemma space_no_m: "list_all is_space w \<Longrightarrow> 109 \<notin> set w"
  unfolding list_all_iff by (auto simp: is_space_def)

lemma hsim_match:
  assumes "hsim s t" "re_match FILE_RE s \<noteq> None"
  shows "re_match FILE_RE t \<noteq> None"
proof -
  from assms(2) obtain m rest where "re_match FILE_RE s = Some (m, rest)" by auto
  from FILE_RE_match_shape [OF this] obtain g1 g2 g3 g4 where
    g: "is_group1 g1" "is_group2 g2" "is_group3 g3" "is_group4 g4"
    and s: "s = g1 @ g2 @ g3 @ g4 @ close_tag @ rest"
    by blast
  from g(1) obtain w where w: "g1 = (py_str ''<File'' @ w) @ md5_attr" "w \<noteq> []" "list_all is_space w"
    unfolding is_group1_def md5_attr_def by auto
  from g(3) obtain w2 d where g3: "g3 = dquote @ w2 @ (py_str ''import='' @ dquote) @ [d] @ (dquote @ py_str ''>'')"
    "w2 \<noteq> []" "list_all is_space w2" "is_01 d"
    unfolding is_group3_def by auto
  define l3 where "l3 = w2 @ (py_str ''import='' @ dquote) @ [d] @ (dquote @ py_str ''>'')"
  have s': "s = (py_str ''<File'' @ w) @ (md5_attr @ g2 @ dquote @ (l3 @ g4 @ close_tag @ rest))"
    unfolding s w(1) g3(1) l3_def by simp
  have "109 \<notin> set (py_str ''<File'' @ w)"
    using space_no_m [OF w(3)] by (simp add: py_str_def)
  from hsim_lit [OF assms(1) [unfolded s'] no_md_no_m [OF this]] obtain t1 where
    t1: "t = (py_str ''<File'' @ w) @ t1" "hsim (md5_attr @ g2 @ dquote @ (l3 @ g4 @ close_tag @ rest)) t1"
    by blast
  from hsim_hash_block [OF t1(2) g(2)] obtain h' t2 where
    t2: "t1 = md5_attr @ h' @ dquote @ t2" "is_group2 h'" "hsim (l3 @ g4 @ close_tag @ rest) t2"
    by blast
  have "no_md ((py_str ''import='' @ dquote) @ [d] @ (dquote @ py_str ''>''))"
    using g3(4) by (simp add: py_str_def dquote_def is_01_def)
  then have "no_md l3"
    unfolding l3_def by (rule no_md_append_no_m [OF space_no_m [OF g3(3)]])
  from hsim_lit [OF t2(3) this] obtain t3 where
    t3: "t2 = l3 @ t3" "hsim (g4 @ close_tag @ rest) t3"
    by blast
  from g(4) have "list_all is_dot g4" "g4 \<noteq> []" by (simp_all add: is_group4_def)
  from hsim_path [OF t3(2) this(1)] this(2) obtain p' t4 where
    t4: "t3 = p' @ close_tag @ t4" "is_group4 p'"
    unfolding is_group4_def by fastforce
  have "t = g1 @ h' @ g3 @ p' @ close_tag @ t4"
    unfolding t1(1) t2(1) t3(1) t4(1) w(1) g3(1) l3_def by simp
  with FILE_RE_match_complete [OF g(1) t2(2) g(3) t4(2)] show ?thesis by simp
qed

lemma hsim_no_match:
  assumes "hsim s t" "re_match FILE_RE s = None"
  shows "re_match FILE_RE t = None"
  using hsim_match [OF hsim_sym [OF assms(1)]] assms(2) by blast

lemma hsim_entry:
  assumes "hsim s t" "is_group1 g1" "is_group2 h" "is_group2 h'" "is_group3 g3"
  shows "hsim (g1 @ h @ g3 @ g4 @ g5 @ s) (g1 @ h' @ g3 @ g4 @ g5 @ t)"
proof -
  from assms(2) obtain w where w: "g1 = (py_str ''<File'' @ w) @ md5_attr"
    unfolding is_group1_def md5_attr_def by auto
  from assms(5) obtain l where l: "g3 = dquote @ l"
    unfolding is_group3_def by auto
  have "hsim ((l @ g4 @ g5) @ s) ((l @ g4 @ g5) @ t)"
    by (rule hsim_append_same [OF assms(1)])
  from hsim_hash [OF this assms(3,4)]
  have "hsim ((py_str ''<File'' @ w) @ md5_attr @ h @ dquote @ (l @ g4 @ g5) @ s)
      ((py_str ''<File'' @ w) @ md5_attr @ h' @ dquote @ (l @ g4 @ g5) @ t)"
    by (rule hsim_append_same)
  then show ?thesis unfolding w l by simp
qed

text \<open>The tokens of the rewritten text: the same gaps, and the entries with group 2 replaced.\<close>

definition new_groups :: "(str \<Rightarrow> fstatus) \<Rightarrow> str list \<Rightarrow> str list" where
  "new_groups fs m = (case fs (m_group m 4) of Content bs \<Rightarrow> m[1 := md5_of bs] | _ \<Rightarrow> m)"

fun retoken :: "(str \<Rightarrow> fstatus) \<Rightarrow> token \<Rightarrow> token" where
  "retoken fs (Gap c) = Gap c"
| "retoken fs (Entry m) = Entry (new_groups fs m)"

lemma group_nth: "0 < i \<Longrightarrow> m_group m i = m ! (i - 1)"
  by (cases i) auto

lemma group_five [simp]:
  "m_group [g1, g2, g3, g4, g5] 1 = g1" "m_group [g1, g2, g3, g4, g5] 2 = g2"
  "m_group [g1, g2, g3, g4, g5] 3 = g3" "m_group [g1, g2, g3, g4, g5] 4 = g4"
  "m_group [g1, g2, g3, g4, g5] 5 = g5"
  by (simp_all add: group_nth)

lemma finditer_None: "re_match FILE_RE (c # cs) = None \<Longrightarrow> finditer (c # cs) = Gap c # finditer cs"
  by simp

lemma finditer_Some:
  assumes "re_match FILE_RE s = Some (m, rest)"
  shows "finditer s = Entry m # finditer rest"
proof (cases s)
  case Nil
  with FILE_RE_match_shorter [OF assms] show ?thesis by simp
next
  case (Cons c cs)
  with assms show ?thesis by simp
qed

lemma finditer_stable_aux:
  "finditer (concat (map (tok_new fs) (finditer s))) = map (retoken fs) (finditer s)
   \<and> hsim s (concat (map (tok_new fs) (finditer s)))"
proof (induction s rule: finditer.induct)
  case 1
  show ?case by (simp add: hsim_Nil)
next
  case (2 c cs)
  let ?N = "\<lambda>s. concat (map (tok_new fs) (finditer s))"
  show ?case
  proof (cases "re_match FILE_RE (c # cs)")
    case None
    from 2(1) [OF None] have ih: "finditer (?N cs) = map (retoken fs) (finditer cs)" "hsim cs (?N cs)"
      by simp_all
    have N: "?N (c # cs) = c # ?N cs" using None by simp
    have h: "hsim (c # cs) (c # ?N cs)" by (rule hsim_Cons [OF ih(2)])
    from hsim_no_match [OF h None] have "finditer (c # ?N cs) = Gap c # finditer (?N cs)"
      by (rule finditer_None)
    with ih(1) N h None show ?thesis by simp
  next
    case (Some x)
    obtain m rest where x: "x = (m, rest)" by (cases x)
    from 2(2) [OF Some x [symmetric]] have ih: "finditer (?N rest) = map (retoken fs) (finditer rest)"
      "hsim rest (?N rest)"
      by simp_all
    from FILE_RE_match_shape [OF Some [unfolded x]] obtain g1 g2 g3 g4 where
      m: "m = [g1, g2, g3, g4, close_tag]" and g: "is_group1 g1" "is_group2 g2" "is_group3 g3"
      and s: "c # cs = g1 @ g2 @ g3 @ g4 @ close_tag @ rest"
      by blast
    obtain h' where h': "new_groups fs m = [g1, h', g3, g4, close_tag]" "is_group2 h'"
      "new_entry fs m = g1 @ h' @ g3 @ g4 @ close_tag"
      unfolding new_groups_def new_entry_def m
      by (cases "fs g4") (auto simp: g(2) md5_of_group2)
    have N: "?N (c # cs) = (g1 @ h' @ g3 @ g4 @ close_tag) @ ?N rest"
      using Some x h'(3) by simp
    have "re_match FILE_RE (g1 @ h' @ g3 @ g4 @ close_tag @ ?N rest) = Some ([g1, h', g3, g4, close_tag], ?N rest)"
      by (rule FILE_RE_match_swap [OF Some [unfolded x m] h'(2)])
    from finditer_Some [OF this] ih(1) h'(1)
    have 1: "finditer (?N (c # cs)) = Entry (new_groups fs m) # map (retoken fs) (finditer rest)"
      unfolding N by simp
    have "hsim (g1 @ g2 @ g3 @ g4 @ close_tag @ rest) (g1 @ h' @ g3 @ g4 @ close_tag @ ?N rest)"
      by (rule hsim_entry [OF ih(2) g(1) g(2) h'(2) g(3)])
    then have "hsim (c # cs) (g1 @ h' @ g3 @ g4 @ close_tag @ ?N rest)"
      unfolding s .
    then have 2: "hsim (c # cs) (?N (c # cs))"
      unfolding N by simp
    from 1 2 Some x show ?thesis by simp
  qed
qed


lemma finditer_stable:
  "finditer (concat (map (tok_new fs) (finditer s))) = map (retoken fs) (finditer s)"
  using finditer_stable_aux by blast

lemma finditer_hsim: "hsim s (concat (map (tok_new fs) (finditer s)))"
  using finditer_stable_aux by blast

lemma concat_tok_text: "concat (map tok_text (finditer s)) = s"
proof (induction s rule: finditer.induct)
  case 1
  show ?case by simp
next
  case (2 c cs)
  show ?case
  proof (cases "re_match FILE_RE (c # cs)")
    case None
    with 2(1) show ?thesis by simp
  next
    case (Some x)
    obtain m rest where x: "x = (m, rest)" by (cases x)
    from FILE_RE_match_shape [OF Some [unfolded x]] have eq: "concat m @ rest = c # cs"
      by auto
    have "finditer (c # cs) = Entry m # finditer rest"
      using Some x by simp
    with 2(2) [OF Some x [symmetric]] eq show ?thesis by simp
  qed
qed

lemma finditer_entry_shape:
  "Entry m \<in> set (finditer s) \<Longrightarrow>
   \<exists>g1 g2 g3 g4. m = [g1, g2, g3, g4, close_tag] \<and> is_group1 g1 \<and> is_group2 g2 \<and>
      is_group3 g3 \<and> is_group4 g4"
proof (induction s rule: finditer.induct)
  case 1
  then show ?case by simp
next
  case (2 c cs)
  show ?case
  proof (cases "re_match FILE_RE (c # cs)")
    case None
    with 2(1,3) show ?thesis by simp
  next
    case (Some x)
    obtain m' rest where x: "x = (m', rest)" by (cases x)
    from 2(3) Some x have "m = m' \<or> Entry m \<in> set (finditer rest)" by auto
    then show ?thesis
    proof
      assume "m = m'"
      with FILE_RE_match_shape [OF Some [unfolded x]] show ?thesis by blast
    next
      assume "Entry m \<in> set (finditer rest)"
      with 2(2) [OF Some x [symmetric]] show ?thesis by blast
    qed
  qed
qed

lemma set_entries_of: "set (entries_of ts) = {m. Entry m \<in> set ts}"
  by (induction ts rule: entries_of.induct) auto

lemma entries_shape:
  assumes "m \<in> set (entries text)"
  shows "\<exists>g1 g2 g3 g4. m = [g1, g2, g3, g4, close_tag] \<and> is_group1 g1 \<and> is_group2 g2 \<and>
      is_group3 g3 \<and> is_group4 g4"
  using assms finditer_entry_shape unfolding entries_def set_entries_of by blast

lemma entries_of_retoken: "entries_of (map (retoken fs) ts) = map (new_groups fs) (entries_of ts)"
  by (induction ts rule: entries_of.induct) auto

lemma no_fail_iff: "(\<forall>t \<in> set ts. \<not> tok_fails fs t) \<longleftrightarrow> (\<forall>m \<in> set (entries_of ts). fs (m_group m 4) \<noteq> Unreadable)"
  by (induction ts rule: entries_of.induct) auto

lemma count_entries: "sum_list (map (tok_count fs) ts) = length (filter (is_update fs) (entries_of ts))"
  by (induction ts rule: entries_of.induct) auto

lemma lines_entries: "concat (map (tok_lines fs) ts) = concat (map (entry_lines fs) (entries_of ts))"
  by (induction ts rule: entries_of.induct) auto

lemma raised_None_no_fail:
  assumes "manifest w = Some text" "raised (main w) = None"
  shows "\<forall>t \<in> set (finditer text). \<not> tok_fails (files w) t"
  using main_fail [OF assms(1)] assms(2) by blast

lemma new_groups_shape:
  assumes "m = [g1, g2, g3, g4, g5]"
  shows "m_group (new_groups fs m) 4 = m_group m 4"
    and "fs g4 = Content bs \<Longrightarrow> m_group (new_groups fs m) 2 = md5_of bs"
    and "fs g4 \<noteq> Unreadable \<Longrightarrow> \<not> is_update fs (new_groups fs m)"
  unfolding assms new_groups_def is_update_def
  by (cases "fs g4"; simp add: upper_md5_of)+

lemma after_eq:
  assumes "manifest w = Some text" "raised (main w) = None"
  shows "after w = (if count (main w) = 0 then w
     else w\<lparr>disk := Some (write_newlines (linesep w)
                  (concat (map (tok_new (files w)) (finditer text))))\<rparr>)"
  unfolding after_def main_ok [OF assms(1) raised_None_no_fail [OF assms]] by simp

lemma count_eq:
  assumes "manifest w = Some text" "raised (main w) = None"
  shows "count (main w) = length (filter (is_update (files w)) (entries text))"
  unfolding main_ok [OF assms(1) raised_None_no_fail [OF assms]] entries_def count_entries by simp

lemma replace_match_cong:
  "fs (m_group m 4) = fs' (m_group m 4) \<Longrightarrow> replace_match fs m = replace_match fs' m"
  by (auto simp: replace_match_def fun_eq_iff)

lemma sub_tokens_cong:
  assumes "\<forall>m \<in> set (entries_of ts). fs (m_group m 4) = fs' (m_group m 4)"
  shows "sub_tokens (replace_match fs) ts st = sub_tokens (replace_match fs') ts st"
  using assms
proof (induction ts arbitrary: st)
  case Nil
  then show ?case by simp
next
  case (Cons t ts)
  show ?case
  proof (cases t)
    case (Gap c)
    with Cons show ?thesis by simp
  next
    case (Entry m)
    with Cons.prems have "replace_match fs m = replace_match fs' m"
      by (intro replace_match_cong) simp
    moreover have "sub_tokens (replace_match fs) ts s = sub_tokens (replace_match fs') ts s" for s
      using Cons Entry by simp
    ultimately show ?thesis using Entry by (simp split: prod.splits sum.splits)
  qed
qed

lemma hash_choice_length:
  assumes "is_group2 g2"
  shows "length (case st of Content bs \<Rightarrow> md5_of bs | _ \<Rightarrow> g2) = 32"
  using assms by (cases st) (simp_all add: is_group2_def length_md5_of)

lemma wrote_eq:
  assumes "manifest w = Some text" "raised (main w) = None"
  shows "wrote (main w) = (if count (main w) = 0 then None
     else Some (concat (map (tok_new (files w)) (finditer text))))"
  unfolding main_ok [OF assms(1) raised_None_no_fail [OF assms]] by simp

lemma stdout_eq:
  assumes "manifest w = Some text" "raised (main w) = None"
  shows "stdout (main w) =
     concat (map (entry_lines (files w)) (entries text)) @ [summary (count (main w))]"
  unfolding main_ok [OF assms(1) raised_None_no_fail [OF assms]] entries_def lines_entries by simp


subsection \<open>Reading back what was written\<close>

text \<open>
  The text read never holds a carriage return, and neither does the text written, which
  differs from it in hexadecimal digits only. So whatever the platform's line separator,
  the next run reads exactly the text this run wrote.
\<close>

lemma universal_newlines_Cons: "c \<noteq> 13 \<Longrightarrow> universal_newlines (c # s) = c # universal_newlines s"
  by (cases s) simp_all

lemma universal_newlines_crlf: "universal_newlines (13 # 10 # s) = 10 # universal_newlines s"
  by simp

lemma universal_newlines_no_cr: "13 \<notin> set (universal_newlines s)"
  by (induction s rule: universal_newlines.induct) auto

lemma universal_newlines_id: "13 \<notin> set s \<Longrightarrow> universal_newlines s = s"
  by (induction s) (simp_all add: universal_newlines_Cons)

lemma write_newlines_Nil: "write_newlines sep [] = []"
  by (simp add: write_newlines_def)

lemma write_newlines_Cons:
  "write_newlines sep (c # t) = (if c = 10 then sep else [c]) @ write_newlines sep t"
  by (simp add: write_newlines_def)

lemma write_newlines_append:
  "write_newlines sep (s @ t) = write_newlines sep s @ write_newlines sep t"
  by (simp add: write_newlines_def)

lemma write_newlines_lf: "write_newlines [10] t = t"
  by (induction t) (simp_all add: write_newlines_Nil write_newlines_Cons)

lemma write_newlines_no_lf: "10 \<notin> set t \<Longrightarrow> write_newlines sep t = t"
  by (induction t) (simp_all add: write_newlines_Nil write_newlines_Cons)

lemma read_write_crlf: "13 \<notin> set t \<Longrightarrow> universal_newlines (write_newlines [13, 10] t) = t"
  by (induction t) (simp_all add: write_newlines_Nil write_newlines_Cons universal_newlines_Cons)

lemma read_write: "13 \<notin> set t \<Longrightarrow> universal_newlines (write_newlines (linesep w) t) = t"
  by (simp add: linesep_def write_newlines_lf universal_newlines_id read_write_crlf)

lemma utf8_encode_append: "utf8_encode (s @ t) = utf8_encode s @ utf8_encode t"
  by (simp add: utf8_encode_def)

lemma hsim_no_cr: "hsim s t \<Longrightarrow> 13 \<notin> set s \<Longrightarrow> 13 \<notin> set t"
proof (induction rule: hsim.induct)
  case hsim_Nil
  then show ?case by simp
next
  case (hsim_Cons s t c)
  then show ?case by simp
next
  case (hsim_hash s t h h')
  have "13 \<notin> set h'" using hsim_hash(3) by (auto simp: is_group2_def list_all_iff is_hex_def)
  with hsim_hash show ?case by simp
qed

lemma manifest_no_cr: "manifest w = Some text \<Longrightarrow> 13 \<notin> set text"
  by (auto simp: manifest_def universal_newlines_no_cr)

lemma new_text_no_cr: "manifest w = Some text \<Longrightarrow> 13 \<notin> set (concat (map (tok_new fs) (finditer text)))"
  using hsim_no_cr [OF finditer_hsim] manifest_no_cr by blast

lemma wrote_SomeD:
  assumes "wrote (main w) = Some t"
  shows "\<exists>text. manifest w = Some text \<and> raised (main w) = None \<and> count (main w) \<noteq> 0
     \<and> t = concat (map (tok_new (files w)) (finditer text))"
proof -
  from assms obtain doc where doc: "manifest w = Some doc"
    by (cases "manifest w") (auto simp: main_unreadable_manifest)
  have ok: "\<forall>t \<in> set (finditer doc). \<not> tok_fails (files w) t"
    using main_fail [OF doc] assms by fastforce
  show ?thesis
    using assms doc unfolding main_ok [OF doc ok] by (simp split: if_splits)
qed

lemma manifest_after:
  assumes "wrote (main w) = Some t"
  shows "manifest (after w) = Some t"
proof -
  from wrote_SomeD [OF assms] obtain doc where "manifest w = Some doc"
    "t = concat (map (tok_new (files w)) (finditer doc))" by blast
  then have "13 \<notin> set t" using new_text_no_cr by simp
  then show ?thesis
    using assms by (simp add: after_def manifest_def read_write)
qed

lemma after_None: "wrote (main w) = None \<Longrightarrow> after w = w"
  by (simp add: after_def)

lemma files_after:
  "wrote (main w) = None \<or> \<not> self_named w p \<Longrightarrow> files (after w) p = files w p"
  by (auto simp: after_def files_def split: option.splits)

lemma files_after_self:
  "wrote (main w) = Some t \<Longrightarrow> self_named w p \<Longrightarrow>
   files (after w) p = Content (utf8_encode (write_newlines (linesep w) t))"
  by (simp add: after_def files_def)

lemma write_text_append: "write_text w (s @ t) = write_text w s @ write_text w t"
  by (simp add: write_text_def write_newlines_append utf8_encode_append)

lemma write_text_Nil: "write_text w [] = []"
  by (simp add: write_text_def write_newlines_Nil utf8_encode_def)

lemma write_text_concat: "write_text w (concat xs) = concat (map (write_text w) xs)"
  by (induction xs) (simp_all add: write_text_append write_text_Nil)

lemma utf8_encode_ascii: "\<forall>c \<in> set s. c < 128 \<Longrightarrow> utf8_encode s = map of_nat s"
  by (induction s) (simp_all add: utf8_encode_def utf8_char_def)

lemma is_hex_ascii: "is_hex c \<Longrightarrow> c < 128 \<and> c \<noteq> 10"
  by (auto simp: is_hex_def)

lemma write_text_hex:
  assumes "is_group2 h"
  shows "write_text w h = utf8_encode h" "length (utf8_encode h) = 32"
proof -
  from assms have a: "\<forall>c \<in> set h. c < 128" and n: "10 \<notin> set h" and l: "length h = 32"
    using is_hex_ascii by (auto simp: is_group2_def list_all_iff)
  show "write_text w h = utf8_encode h"
    unfolding write_text_def write_newlines_no_lf [OF n] ..
  show "length (utf8_encode h) = 32"
    unfolding utf8_encode_ascii [OF a] using l by simp
qed

lemma hash_choice_group2:
  assumes "is_group2 g2"
  shows "is_group2 (case st of Content bs \<Rightarrow> md5_of bs | _ \<Rightarrow> g2)"
  using assms by (cases st) (simp_all add: md5_of_group2)

lemma platform_line_ends:
  assumes "13 \<notin> set s" "raw = write_newlines (linesep w) s"
  shows "universal_newlines raw = s"
  unfolding assms(2) using assms(1) by (rule read_write)




lemma entries_new_text:
  "entries (concat (map (tok_new fs) (finditer text))) = map (new_groups fs) (entries text)"
  unfolding entries_def finditer_stable entries_of_retoken ..

lemma is_update_cong:
  "fs (m_group m 4) = fs' (m_group m 4) \<Longrightarrow> is_update fs m = is_update fs' m"
  by (simp add: is_update_def)

section \<open>An example world\<close>

text \<open>
  A manifest of three entries in the usual layout, one per line. \<open>a.lua\<close> and \<open>b.lua\<close> are
  empty files, \<open>c.lua\<close> does not exist. The first entry records the right hash in lower
  case, the second and third record zeros.
\<close>

text \<open>
  The worlds of the examples are POSIX worlds whose manifest has no carriage return and is
  not named by any entry, unless said otherwise.
\<close>

definition posix_world :: "str \<Rightarrow> (str \<Rightarrow> fstatus) \<Rightarrow> world" where
  "posix_world raw fs = \<lparr>disk = Some raw, others = fs, self_named = (\<lambda>p. False), crlf = False\<rparr>"

lemma files_posix: "files (posix_world raw fs) = fs"
  by (rule ext) (simp add: files_def posix_world_def)

lemma manifest_posix: "13 \<notin> set raw \<Longrightarrow> manifest (posix_world raw fs) = Some raw"
  by (simp add: manifest_def posix_world_def universal_newlines_id)

definition file_entry :: "str \<Rightarrow> str \<Rightarrow> str \<Rightarrow> str" where
  "file_entry h d p =
     py_str ''<File md5='' @ dquote @ h @ dquote @ py_str '' import='' @ dquote @ d @ dquote
     @ py_str ''>'' @ p @ py_str ''</File>''"

definition entry_groups :: "str \<Rightarrow> str \<Rightarrow> str \<Rightarrow> str list" where
  "entry_groups h d p =
     [py_str ''<File md5='' @ dquote, h, dquote @ py_str '' import='' @ dquote @ d @ dquote @ py_str ''>'',
      p, py_str ''</File>'']"

definition ex_manifest :: str where
  "ex_manifest =
     file_entry (py_str ''d41d8cd98f00b204e9800998ecf8427e'') (py_str ''1'') (py_str ''a.lua'') @ [10]
     @ file_entry (py_str ''00000000000000000000000000000000'') (py_str ''0'') (py_str ''b.lua'') @ [10]
     @ file_entry (py_str ''00000000000000000000000000000000'') (py_str ''0'') (py_str ''c.lua'')"

definition ex_files :: "str \<Rightarrow> fstatus" where
  "ex_files p = (if p = py_str ''a.lua'' \<or> p = py_str ''b.lua'' then Content [] else Absent)"

definition ex_world :: world where
  "ex_world = posix_world ex_manifest ex_files"

lemma ex_world_eval: "manifest ex_world = Some ex_manifest" "files ex_world = ex_files"
  unfolding ex_world_def files_posix
  by (simp_all add: manifest_posix ex_manifest_def file_entry_def py_str_def dquote_def)

lemma md5_of_empty: "md5_of [] = py_str ''D41D8CD98F00B204E9800998ECF8427E''"
  by code_simp

lemmas eval_re = py_str_def dquote_def re_match_def first_of_def FILE_RE_def
  is_space_def is_hex_def is_01_def is_dot_def file_entry_def entry_groups_def

lemma finditer_ex:
  "finditer ex_manifest =
     [Entry (entry_groups (py_str ''d41d8cd98f00b204e9800998ecf8427e'') (py_str ''1'') (py_str ''a.lua'')),
      Gap 10,
      Entry (entry_groups (py_str ''00000000000000000000000000000000'') (py_str ''0'') (py_str ''b.lua'')),
      Gap 10,
      Entry (entry_groups (py_str ''00000000000000000000000000000000'') (py_str ''0'') (py_str ''c.lua''))]"
  by (simp add: ex_manifest_def eval_re)

lemma decimal_1: "decimal (Suc 0) = [49]"
  by (simp add: decimal.simps)

lemma main_ex:
  "main ex_world =
     \<lparr>raised = None,
      stdout = [py_str ''  b.lua: 00000000000000000000000000000000 -> D41D8CD98F00B204E9800998ECF8427E'',
                py_str ''  MISSING: c.lua'',
                py_str ''Updated 1 hash(es).''],
      count = 1,
      wrote = Some
        (file_entry (py_str ''D41D8CD98F00B204E9800998ECF8427E'') (py_str ''1'') (py_str ''a.lua'') @ [10]
         @ file_entry (py_str ''D41D8CD98F00B204E9800998ECF8427E'') (py_str ''0'') (py_str ''b.lua'') @ [10]
         @ file_entry (py_str ''00000000000000000000000000000000'') (py_str ''0'') (py_str ''c.lua''))\<rparr>"
  unfolding main_def re_sub_def ex_world_eval
  by (simp add: finditer_ex replace_match_def entry_groups_def ex_files_def group_nth md5_of_empty
      Let_def py_str_def dquote_def upper_def upper_char_def decimal_1 file_entry_def)

text \<open>
  Variations of the world: a manifest without entries; \<open>c.lua\<close> present but unreadable
  and \<open>a.lua\<close> missing; every file present and empty; only \<open>a.lua\<close> present; one more
  file that no entry names. Then an entry whose attributes are separated by a tab and by a
  line break, and a manifest of four texts that are almost entries: an empty path, a line
  feed in the path, a hash of 31 digits, and \<open>import="2"\<close>.
\<close>

definition plain_world :: world where
  "plain_world = posix_world (py_str ''<Mod></Mod>'') ex_files"

lemma plain_world_eval: "manifest plain_world = Some (py_str ''<Mod></Mod>'')" "files plain_world = ex_files"
  unfolding plain_world_def files_posix
  by (simp_all add: manifest_posix file_entry_def py_str_def dquote_def)

lemma finditer_plain: "finditer (py_str ''<Mod></Mod>'') = map Gap (py_str ''<Mod></Mod>'')"
  by (simp add: eval_re)

definition abort_files :: "str \<Rightarrow> fstatus" where
  "abort_files p =
     (if p = py_str ''b.lua'' then Content [] else if p = py_str ''c.lua'' then Unreadable else Absent)"

definition abort_world :: world where
  "abort_world = posix_world ex_manifest abort_files"

lemma abort_world_eval: "manifest abort_world = Some ex_manifest" "files abort_world = abort_files"
  unfolding abort_world_def files_posix
  by (simp_all add: manifest_posix ex_manifest_def file_entry_def py_str_def dquote_def)

lemmas eval_run = replace_match_def entry_groups_def group_nth md5_of_empty
      Let_def py_str_def dquote_def upper_def upper_char_def decimal_1 file_entry_def

lemma main_abort:
  "main abort_world =
     \<lparr>raised = Some (FileReadError (py_str ''c.lua'')),
      stdout = [py_str ''  MISSING: a.lua'',
                py_str ''  b.lua: 00000000000000000000000000000000 -> D41D8CD98F00B204E9800998ECF8427E''],
      count = 1, wrote = None\<rparr>"
  unfolding main_def re_sub_def abort_world_eval
  by (simp add: finditer_ex abort_files_def eval_run)

















definition other_files :: "str \<Rightarrow> fstatus" where
  "other_files p = (if p = py_str ''z.lua'' then Content [1] else ex_files p)"

definition other_world :: world where
  "other_world = posix_world ex_manifest other_files"

lemma other_world_eval: "manifest other_world = Some ex_manifest" "files other_world = other_files"
  unfolding other_world_def files_posix
  by (simp_all add: manifest_posix ex_manifest_def file_entry_def py_str_def dquote_def)



text \<open>
  A manifest whose only entry names \<open>a.lua\<close>, a file of the three bytes \<open>abc\<close>. Then a
  manifest whose only entry names the manifest itself, \<open>VoxDeorum.modinfo\<close>: the bytes
  the run hashes are the manifest's own, and writing the manifest changes them.
\<close>

definition abc_manifest :: str where
  "abc_manifest = file_entry (py_str ''00000000000000000000000000000000'') (py_str ''1'') (py_str ''a.lua'')"

definition abc_files :: "str \<Rightarrow> fstatus" where
  "abc_files p = (if p = py_str ''a.lua'' then Content [0x61, 0x62, 0x63] else Absent)"

definition abc_world :: world where
  "abc_world = posix_world abc_manifest abc_files"

lemma abc_world_eval: "manifest abc_world = Some abc_manifest" "files abc_world = abc_files"
  unfolding abc_world_def files_posix
  by (simp_all add: manifest_posix abc_manifest_def file_entry_def py_str_def dquote_def)

lemma finditer_abc:
  "finditer abc_manifest =
     [Entry (entry_groups (py_str ''00000000000000000000000000000000'') (py_str ''1'') (py_str ''a.lua''))]"
  by (simp add: abc_manifest_def eval_re)

lemma main_abc:
  "main abc_world =
     \<lparr>raised = None,
      stdout = [py_str ''  a.lua: 00000000000000000000000000000000 -> 900150983CD24FB0D6963F7D28E17F72'',
                py_str ''Updated 1 hash(es).''],
      count = 1,
      wrote = Some (file_entry (py_str ''900150983CD24FB0D6963F7D28E17F72'') (py_str ''1'') (py_str ''a.lua''))\<rparr>"
  unfolding main_def re_sub_def abc_world_eval
  by (simp add: finditer_abc abc_files_def replace_match_def entry_groups_def group_nth md5_of_abc
      Let_def py_str_def dquote_def upper_def upper_char_def decimal_1 file_entry_def)

lemma finditer_abc_new:
  "finditer (file_entry (py_str ''900150983CD24FB0D6963F7D28E17F72'') (py_str ''1'') (py_str ''a.lua'')) =
     [Entry (entry_groups (py_str ''900150983CD24FB0D6963F7D28E17F72'') (py_str ''1'') (py_str ''a.lua''))]"
  by (simp add: eval_re)

definition self_manifest :: str where
  "self_manifest =
     file_entry (py_str ''00000000000000000000000000000000'') (py_str ''1'') (py_str ''VoxDeorum.modinfo'')"

definition self_world :: world where
  "self_world = \<lparr>disk = Some self_manifest, others = (\<lambda>p. Absent),
                  self_named = (\<lambda>p. p = py_str ''VoxDeorum.modinfo''), crlf = False\<rparr>"

definition self_files :: "str \<Rightarrow> str \<Rightarrow> fstatus" where
  "self_files t p = (if p = py_str ''VoxDeorum.modinfo'' then Content (utf8_encode t) else Absent)"

lemma self_world_eval:
  "manifest self_world = Some self_manifest" "files self_world = self_files self_manifest"
proof -
  have "13 \<notin> set self_manifest"
    by (simp add: self_manifest_def file_entry_def py_str_def dquote_def)
  then show "manifest self_world = Some self_manifest"
    by (simp add: manifest_def self_world_def universal_newlines_id)
  show "files self_world = self_files self_manifest"
    by (rule ext) (simp add: files_def self_world_def self_files_def)
qed

lemma md5_self_1:
  "md5_of (utf8_encode self_manifest) = py_str ''03D37665630C4724758F5FFFBB3B1498''"
  by code_simp

definition self_manifest_1 :: str where
  "self_manifest_1 =
     file_entry (py_str ''03D37665630C4724758F5FFFBB3B1498'') (py_str ''1'') (py_str ''VoxDeorum.modinfo'')"

definition self_manifest_2 :: str where
  "self_manifest_2 =
     file_entry (py_str ''1186E3DA5B0D68BD98FA63DB1207572F'') (py_str ''1'') (py_str ''VoxDeorum.modinfo'')"

lemma md5_self_2: "md5_of (utf8_encode self_manifest_1) = py_str ''1186E3DA5B0D68BD98FA63DB1207572F''"
  by code_simp

lemma finditer_self:
  "finditer self_manifest =
     [Entry (entry_groups (py_str ''00000000000000000000000000000000'') (py_str ''1'') (py_str ''VoxDeorum.modinfo''))]"
  by (simp add: self_manifest_def eval_re)

lemma finditer_self_1:
  "finditer self_manifest_1 =
     [Entry (entry_groups (py_str ''03D37665630C4724758F5FFFBB3B1498'') (py_str ''1'') (py_str ''VoxDeorum.modinfo''))]"
  by (simp add: self_manifest_1_def eval_re)

lemma main_self:
  "main self_world =
     \<lparr>raised = None,
      stdout = [py_str ''  VoxDeorum.modinfo: 00000000000000000000000000000000 -> 03D37665630C4724758F5FFFBB3B1498'',
                py_str ''Updated 1 hash(es).''],
      count = 1,
      wrote = Some self_manifest_1\<rparr>"
  unfolding main_def re_sub_def self_world_eval self_manifest_1_def
  by (simp add: finditer_self self_files_def md5_self_1
      replace_match_def entry_groups_def group_nth
      Let_def py_str_def dquote_def upper_def upper_char_def decimal_1 file_entry_def)

lemma after_self_eval:
  "manifest (after self_world) = Some self_manifest_1"
  "files (after self_world) = self_files self_manifest_1"
proof -
  have w: "wrote (main self_world) = Some self_manifest_1" by (simp add: main_self)
  from manifest_after [OF w] show "manifest (after self_world) = Some self_manifest_1" .
  have l: "linesep self_world = [10]" by (simp add: linesep_def self_world_def)
  show "files (after self_world) = self_files self_manifest_1"
  proof (rule ext)
    fix p
    show "files (after self_world) p = self_files self_manifest_1 p"
    proof (cases "self_named self_world p")
      case True
      then have "p = py_str ''VoxDeorum.modinfo''" by (simp add: self_world_def)
      with files_after_self [OF w True] show ?thesis
        by (simp add: l write_newlines_lf self_files_def)
    next
      case False
      then have "files (after self_world) p = files self_world p"
        by (intro files_after) simp
      moreover from False have "p \<noteq> py_str ''VoxDeorum.modinfo''" by (simp add: self_world_def)
      ultimately show ?thesis
        by (simp add: self_world_eval self_files_def)
    qed
  qed
qed

lemma main_after_self:
  "main (after self_world) =
     \<lparr>raised = None,
      stdout = [py_str ''  VoxDeorum.modinfo: 03D37665630C4724758F5FFFBB3B1498 -> 1186E3DA5B0D68BD98FA63DB1207572F'',
                py_str ''Updated 1 hash(es).''],
      count = 1,
      wrote = Some self_manifest_2\<rparr>"
  unfolding main_def re_sub_def after_self_eval self_manifest_2_def
  by (simp add: finditer_self_1 self_files_def md5_self_2
      replace_match_def entry_groups_def group_nth
      Let_def py_str_def dquote_def upper_def upper_char_def decimal_1 file_entry_def)

text \<open>
  The example manifest on a platform whose line separator is \<open>\r\n\<close>, with such line
  ends in the file. Then a manifest of one entry that ends in \<open>\r\n\<close>, on POSIX.
\<close>

definition win_world :: world where
  "win_world = \<lparr>disk = Some (write_newlines [13, 10] ex_manifest), others = ex_files,
                 self_named = (\<lambda>p. False), crlf = True\<rparr>"

lemma ex_manifest_no_cr: "13 \<notin> set ex_manifest"
  by (simp add: ex_manifest_def file_entry_def py_str_def dquote_def)

lemma win_world_eval: "manifest win_world = Some ex_manifest" "files win_world = ex_files"
proof -
  show "manifest win_world = Some ex_manifest"
    by (simp add: manifest_def win_world_def read_write_crlf [OF ex_manifest_no_cr])
  show "files win_world = ex_files"
    by (rule ext) (simp add: files_def win_world_def)
qed

lemma main_win: "main win_world = main ex_world"
  unfolding main_def win_world_eval ex_world_eval ..

definition dos_manifest :: str where
  "dos_manifest =
     file_entry (py_str ''00000000000000000000000000000000'') (py_str ''0'') (py_str ''b.lua'') @ [13, 10]"

definition dos_world :: world where
  "dos_world = posix_world dos_manifest ex_files"

definition dos_text :: str where
  "dos_text =
     file_entry (py_str ''00000000000000000000000000000000'') (py_str ''0'') (py_str ''b.lua'') @ [10]"

lemma dos_world_eval: "manifest dos_world = Some dos_text" "files dos_world = ex_files"
  unfolding dos_world_def files_posix
  by (simp_all add: manifest_def posix_world_def dos_manifest_def dos_text_def file_entry_def
      py_str_def dquote_def)

lemma finditer_dos:
  "finditer dos_text =
     [Entry (entry_groups (py_str ''00000000000000000000000000000000'') (py_str ''0'') (py_str ''b.lua'')),
      Gap 10]"
  by (simp add: dos_text_def eval_re)

lemma main_dos:
  "main dos_world =
     \<lparr>raised = None,
      stdout = [py_str ''  b.lua: 00000000000000000000000000000000 -> D41D8CD98F00B204E9800998ECF8427E'',
                py_str ''Updated 1 hash(es).''],
      count = 1,
      wrote = Some
        (file_entry (py_str ''D41D8CD98F00B204E9800998ECF8427E'') (py_str ''0'') (py_str ''b.lua'') @ [10])\<rparr>"
  unfolding main_def re_sub_def dos_world_eval
  by (simp add: finditer_dos ex_files_def eval_run)









section \<open>The claims\<close>

text \<open>
  C1 (exactness), as amended. For every entry of the manifest whose referenced file exists,
  after one successful run the recorded hash of that entry, compared without regard to
  case, is the uppercase 32-digit hexadecimal MD5 of the bytes the file had when the run
  read it. The entries of the manifest after the run are those before it, in the same order
  and with the same paths. Unless the run rewrote the manifest and the entry names the
  manifest itself, these bytes are still the file's bytes after the run.
\<close>

theorem C1_exactness:
  assumes "manifest w = Some text" "raised (main w) = None"
    and "i < length (entries text)" "files w (m_group (entries text ! i) 4) = Content bs"
  shows "\<exists>text'. manifest (after w) = Some text' \<and> length (entries text') = length (entries text)
     \<and> m_group (entries text' ! i) 4 = m_group (entries text ! i) 4
     \<and> upper (m_group (entries text' ! i) 2) = upper (hexdigest (md5 bs))
     \<and> length (m_group (entries text' ! i) 2) = 32
     \<and> list_all is_upper_hex (upper (m_group (entries text' ! i) 2))
     \<and> (wrote (main w) = None \<or> \<not> self_named w (m_group (entries text ! i) 4) \<longrightarrow>
          files (after w) (m_group (entries text' ! i) 4) = Content bs)"
proof -
  let ?m = "entries text ! i"
  have mem: "?m \<in> set (entries text)" using assms(3) by simp
  from entries_shape [OF mem] obtain g1 g2 g3 g4 where m: "?m = [g1, g2, g3, g4, close_tag]"
    and g2: "is_group2 g2" by blast
  have g4: "files w g4 = Content bs" using assms(4) unfolding m by simp
  have fa: "wrote (main w) = None \<or> \<not> self_named w (m_group ?m 4) \<longrightarrow>
      files (after w) (m_group ?m 4) = Content bs"
    using files_after [of w "m_group ?m 4"] assms(4) by auto
  have d: "md5_of bs = upper (hexdigest (md5 bs))" by (simp add: md5_of_def)
  show ?thesis
  proof (cases "count (main w) = 0")
    case True
    then have a: "after w = w" using after_eq [OF assms(1,2)] by simp
    have "filter (is_update (files w)) (entries text) = []"
      using True count_eq [OF assms(1,2)] by simp
    with mem have "\<not> is_update (files w) ?m"
      by (metis filter_empty_conv)
    then have u: "upper (m_group ?m 2) = md5_of bs"
      using assms(4) by (simp add: is_update_def)
    have l: "length (m_group ?m 2) = 32" using g2 unfolding m by (simp add: is_group2_def)
    have "list_all is_upper_hex (upper (m_group ?m 2))" unfolding u by (rule md5_of_upper_hex)
    with u l fa assms(1) show ?thesis
      unfolding a d by (intro exI [of _ "text"]) simp
  next
    case False
    let ?t = "concat (map (tok_new (files w)) (finditer text))"
    have "wrote (main w) = Some ?t" using False wrote_eq [OF assms(1,2)] by simp
    from manifest_after [OF this] have a: "manifest (after w) = Some ?t" .
    have e: "entries ?t = map (new_groups (files w)) (entries text)" by (rule entries_new_text)
    have p: "m_group (entries ?t ! i) 4 = m_group ?m 4" and h: "m_group (entries ?t ! i) 2 = md5_of bs"
      unfolding e using assms(3) new_groups_shape(1) [OF m]
        new_groups_shape(2) [where fs = "files w", OF m g4]
      by simp_all
    have "length (entries ?t) = length (entries text)" unfolding e by simp
    moreover have "upper (m_group (entries ?t ! i) 2) = upper (hexdigest (md5 bs))"
      unfolding h upper_md5_of by (rule d)
    moreover have "length (m_group (entries ?t ! i) 2) = 32" unfolding h by (rule length_md5_of)
    moreover have "list_all is_upper_hex (upper (m_group (entries ?t ! i) 2))"
      unfolding h upper_md5_of by (rule md5_of_upper_hex)
    ultimately show ?thesis
      using a p fa by (intro exI [of _ ?t]) simp
  qed
qed

theorem C1_exactness_witness:
  "manifest abc_world = Some abc_manifest \<and> raised (main abc_world) = None
   \<and> 0 < length (entries abc_manifest)
   \<and> m_group (entries abc_manifest ! 0) 4 = py_str ''a.lua''
   \<and> files abc_world (py_str ''a.lua'') = Content [0x61, 0x62, 0x63]
   \<and> \<not> self_named abc_world (py_str ''a.lua'')
   \<and> manifest (after abc_world) =
       Some (file_entry (py_str ''900150983CD24FB0D6963F7D28E17F72'') (py_str ''1'') (py_str ''a.lua''))
   \<and> upper (hexdigest (md5 [0x61, 0x62, 0x63])) = py_str ''900150983CD24FB0D6963F7D28E17F72''
   \<and> (\<exists>text'. manifest (after abc_world) = Some text'
        \<and> upper (m_group (entries text' ! 0) 2) = py_str ''900150983CD24FB0D6963F7D28E17F72''
        \<and> files (after abc_world) (m_group (entries text' ! 0) 4) = Content [0x61, 0x62, 0x63])"
proof -
  have 1: "manifest abc_world = Some abc_manifest" by (simp add: abc_world_eval)
  have 2: "raised (main abc_world) = None" by (simp add: main_abc)
  have 3: "0 < length (entries abc_manifest)" by (simp add: entries_def finditer_abc)
  have 4: "m_group (entries abc_manifest ! 0) 4 = py_str ''a.lua''"
    by (simp add: entries_def finditer_abc entry_groups_def)
  have 5: "files abc_world (m_group (entries abc_manifest ! 0) 4) = Content [0x61, 0x62, 0x63]"
    unfolding 4 by (simp add: abc_world_eval abc_files_def)
  have 6: "\<not> self_named abc_world (py_str ''a.lua'')"
    by (simp add: abc_world_def posix_world_def)
  have 7: "manifest (after abc_world) =
       Some (file_entry (py_str ''900150983CD24FB0D6963F7D28E17F72'') (py_str ''1'') (py_str ''a.lua''))"
    by (rule manifest_after) (simp add: main_abc)
  have 8: "upper (hexdigest (md5 [0x61, 0x62, 0x63])) = py_str ''900150983CD24FB0D6963F7D28E17F72''"
    using md5_of_abc by (simp add: md5_of_def)
  from C1_exactness [OF 1 2 3 5] 1 2 3 4 5 6 7 8 show ?thesis by auto
qed

text \<open>
  C1 as stated fails for an entry that names the manifest itself. The run hashes the
  manifest as it was, records that hash, and by writing it changes the bytes it hashed:
  after the run the entry records \<open>03D3...\<close> and the file's bytes hash to \<open>1186...\<close>.
\<close>

theorem C1_counterexample:
  "manifest self_world =
     Some (file_entry (py_str ''00000000000000000000000000000000'') (py_str ''1'') (py_str ''VoxDeorum.modinfo''))
   \<and> files self_world (py_str ''VoxDeorum.modinfo'') =
       Content (utf8_encode
         (file_entry (py_str ''00000000000000000000000000000000'') (py_str ''1'') (py_str ''VoxDeorum.modinfo'')))
   \<and> raised (main self_world) = None
   \<and> manifest (after self_world) =
       Some (file_entry (py_str ''03D37665630C4724758F5FFFBB3B1498'') (py_str ''1'') (py_str ''VoxDeorum.modinfo''))
   \<and> files (after self_world) (py_str ''VoxDeorum.modinfo'') =
       Content (utf8_encode
         (file_entry (py_str ''03D37665630C4724758F5FFFBB3B1498'') (py_str ''1'') (py_str ''VoxDeorum.modinfo'')))
   \<and> upper (hexdigest (md5 (utf8_encode
         (file_entry (py_str ''03D37665630C4724758F5FFFBB3B1498'') (py_str ''1'') (py_str ''VoxDeorum.modinfo'')))))
       = py_str ''1186E3DA5B0D68BD98FA63DB1207572F''
   \<and> upper (py_str ''03D37665630C4724758F5FFFBB3B1498'') \<noteq> py_str ''1186E3DA5B0D68BD98FA63DB1207572F''"
proof -
  have "upper (py_str ''03D37665630C4724758F5FFFBB3B1498'') \<noteq> py_str ''1186E3DA5B0D68BD98FA63DB1207572F''"
    by (simp add: py_str_def upper_def upper_char_def)
  then show ?thesis
    using md5_self_2
    by (simp add: self_world_eval after_self_eval main_self self_files_def md5_of_def
        self_manifest_def [symmetric] self_manifest_1_def [symmetric])
qed

text \<open>
  C2 (preservation), as amended. A run that rewrites the manifest reads the file with every
  \<open>\r\n\<close> and every \<open>\r\<close> taken as \<open>\n\<close> and writes it with every \<open>\n\<close> as the
  platform's line separator. Between the text read and the text written nothing changes but
  the 32 hash characters of entries whose referenced file exists: both are the same sequence
  of pieces, a piece being a character outside every match or the five groups of a match,
  and only group 2 of an entry whose file exists is replaced, by the uppercase MD5 of the
  file; entries whose file is missing keep their text; the length is the same. When the
  line ends of the file are the platform's, the bytes of the file before and after the run
  are the encodings of these pieces: they differ in those 32 bytes per entry only, and
  the file keeps its length.
\<close>

theorem C2_frame:
  assumes "wrote (main w) = Some t"
  shows "\<exists>raw text. disk w = Some raw \<and> manifest w = Some text \<and> text = universal_newlines raw
     \<and> disk (after w) = Some (write_newlines (linesep w) t)
     \<and> text = concat (map tok_text (finditer text))
     \<and> t = concat (map (tok_new (files w)) (finditer text))
     \<and> length t = length text
     \<and> (\<forall>tok \<in> set (finditer text).
          case tok of
            Gap c \<Rightarrow> tok_text tok = [c] \<and> tok_new (files w) tok = [c]
          | Entry m \<Rightarrow>
              (\<exists>g1 g2 g3 g4 g5 h. m = [g1, g2, g3, g4, g5]
                 \<and> h = (case files w g4 of Content bs \<Rightarrow> md5_of bs | _ \<Rightarrow> g2)
                 \<and> length g2 = 32 \<and> length h = 32
                 \<and> tok_text tok = g1 @ g2 @ g3 @ g4 @ g5
                 \<and> tok_new (files w) tok = g1 @ h @ g3 @ g4 @ g5
                 \<and> write_text w (tok_text tok) =
                     write_text w g1 @ utf8_encode g2 @ write_text w g3 @ write_text w g4 @ write_text w g5
                 \<and> write_text w (tok_new (files w) tok) =
                     write_text w g1 @ utf8_encode h @ write_text w g3 @ write_text w g4 @ write_text w g5
                 \<and> length (utf8_encode g2) = 32 \<and> length (utf8_encode h) = 32))
     \<and> ((\<exists>s. 13 \<notin> set s \<and> raw = write_newlines (linesep w) s) \<longrightarrow>
          raw = write_newlines (linesep w) text
          \<and> utf8_encode raw = concat (map (\<lambda>tok. write_text w (tok_text tok)) (finditer text))
          \<and> write_text w t = concat (map (\<lambda>tok. write_text w (tok_new (files w) tok)) (finditer text))
          \<and> length (write_text w t) = length (utf8_encode raw))"
proof -
  from wrote_SomeD [OF assms] obtain doc where doc: "manifest w = Some doc"
    and t: "t = concat (map (tok_new (files w)) (finditer doc))" by blast
  from doc obtain raw where raw: "disk w = Some raw" "doc = universal_newlines raw"
    by (auto simp: manifest_def)
  have d: "disk (after w) = Some (write_newlines (linesep w) t)"
    using assms by (simp add: after_def)
  have len: "length t = length doc"
    unfolding t using hsim_length [OF finditer_hsim, of doc "files w"] by simp
  have pieces: "case tok of
            Gap c \<Rightarrow> tok_text tok = [c] \<and> tok_new (files w) tok = [c]
          | Entry m \<Rightarrow>
              (\<exists>g1 g2 g3 g4 g5 h. m = [g1, g2, g3, g4, g5]
                 \<and> h = (case files w g4 of Content bs \<Rightarrow> md5_of bs | _ \<Rightarrow> g2)
                 \<and> length g2 = 32 \<and> length h = 32
                 \<and> tok_text tok = g1 @ g2 @ g3 @ g4 @ g5
                 \<and> tok_new (files w) tok = g1 @ h @ g3 @ g4 @ g5
                 \<and> write_text w (tok_text tok) =
                     write_text w g1 @ utf8_encode g2 @ write_text w g3 @ write_text w g4 @ write_text w g5
                 \<and> write_text w (tok_new (files w) tok) =
                     write_text w g1 @ utf8_encode h @ write_text w g3 @ write_text w g4 @ write_text w g5
                 \<and> length (utf8_encode g2) = 32 \<and> length (utf8_encode h) = 32)"
    if "tok \<in> set (finditer doc)" for tok
  proof (cases tok)
    case (Gap c)
    then show ?thesis by simp
  next
    case (Entry m)
    from finditer_entry_shape [OF that [unfolded Entry]] obtain g1 g2 g3 g4 where
      m: "m = [g1, g2, g3, g4, close_tag]" and g2: "is_group2 g2" by blast
    define h where "h = (case files w g4 of Content bs \<Rightarrow> md5_of bs | _ \<Rightarrow> g2)"
    have h: "is_group2 h" unfolding h_def using g2 by (rule hash_choice_group2)
    have n: "new_entry (files w) m = g1 @ h @ g3 @ g4 @ close_tag"
      unfolding new_entry_def m h_def by (cases "files w g4") simp_all
    have o: "tok_text tok = g1 @ g2 @ g3 @ g4 @ close_tag" unfolding Entry m by simp
    have "write_text w (tok_text tok) =
        write_text w g1 @ utf8_encode g2 @ write_text w g3 @ write_text w g4 @ write_text w close_tag"
      unfolding o write_text_append write_text_hex(1) [OF g2] ..
    moreover have "write_text w (tok_new (files w) tok) =
        write_text w g1 @ utf8_encode h @ write_text w g3 @ write_text w g4 @ write_text w close_tag"
      unfolding Entry tok_new.simps n write_text_append write_text_hex(1) [OF h] ..
    moreover have "length g2 = 32" "length h = 32" using g2 h by (simp_all add: is_group2_def)
    ultimately show ?thesis
      unfolding Entry using m n o [unfolded Entry] h_def write_text_hex(2) [OF g2] write_text_hex(2) [OF h]
      by simp
  qed
  have bytes: "raw = write_newlines (linesep w) doc
          \<and> utf8_encode raw = concat (map (\<lambda>tok. write_text w (tok_text tok)) (finditer doc))
          \<and> write_text w t = concat (map (\<lambda>tok. write_text w (tok_new (files w) tok)) (finditer doc))
          \<and> length (write_text w t) = length (utf8_encode raw)"
    if "\<exists>s. 13 \<notin> set s \<and> raw = write_newlines (linesep w) s"
  proof -
    from that obtain s where s: "13 \<notin> set s" "raw = write_newlines (linesep w) s" by blast
    from platform_line_ends [OF s] have "doc = s" using raw(2) by simp
    with s(2) have r: "raw = write_newlines (linesep w) doc" by simp
    have "utf8_encode raw = write_text w (concat (map tok_text (finditer doc)))"
      unfolding concat_tok_text write_text_def r [symmetric] ..
    then have b: "utf8_encode raw = concat (map (\<lambda>tok. write_text w (tok_text tok)) (finditer doc))"
      unfolding write_text_concat by (simp add: comp_def)
    have a: "write_text w t = concat (map (\<lambda>tok. write_text w (tok_new (files w) tok)) (finditer doc))"
      unfolding t write_text_concat by (simp add: comp_def)
    have "length (write_text w (tok_new (files w) tok)) = length (write_text w (tok_text tok))"
      if "tok \<in> set (finditer doc)" for tok
      using pieces [OF that] by (cases tok) auto
    then have "map (\<lambda>tok. length (write_text w (tok_new (files w) tok))) (finditer doc) =
        map (\<lambda>tok. length (write_text w (tok_text tok))) (finditer doc)"
      by simp
    then have "sum_list (map (\<lambda>tok. length (write_text w (tok_new (files w) tok))) (finditer doc)) =
        sum_list (map (\<lambda>tok. length (write_text w (tok_text tok))) (finditer doc))"
      by (rule arg_cong)
    then have "length (write_text w t) = length (utf8_encode raw)"
      unfolding a b length_concat by (simp add: comp_def)
    with r a b show ?thesis by simp
  qed
  have p8: "\<forall>tok \<in> set (finditer doc). case tok of
            Gap c \<Rightarrow> tok_text tok = [c] \<and> tok_new (files w) tok = [c]
          | Entry m \<Rightarrow>
              (\<exists>g1 g2 g3 g4 g5 h. m = [g1, g2, g3, g4, g5]
                 \<and> h = (case files w g4 of Content bs \<Rightarrow> md5_of bs | _ \<Rightarrow> g2)
                 \<and> length g2 = 32 \<and> length h = 32
                 \<and> tok_text tok = g1 @ g2 @ g3 @ g4 @ g5
                 \<and> tok_new (files w) tok = g1 @ h @ g3 @ g4 @ g5
                 \<and> write_text w (tok_text tok) =
                     write_text w g1 @ utf8_encode g2 @ write_text w g3 @ write_text w g4 @ write_text w g5
                 \<and> write_text w (tok_new (files w) tok) =
                     write_text w g1 @ utf8_encode h @ write_text w g3 @ write_text w g4 @ write_text w g5
                 \<and> length (utf8_encode g2) = 32 \<and> length (utf8_encode h) = 32)"
    using pieces by blast
  have p9: "(\<exists>s. 13 \<notin> set s \<and> raw = write_newlines (linesep w) s) \<longrightarrow>
          raw = write_newlines (linesep w) doc
          \<and> utf8_encode raw = concat (map (\<lambda>tok. write_text w (tok_text tok)) (finditer doc))
          \<and> write_text w t = concat (map (\<lambda>tok. write_text w (tok_new (files w) tok)) (finditer doc))
          \<and> length (write_text w t) = length (utf8_encode raw)"
    using bytes by blast
  have p5: "doc = concat (map tok_text (finditer doc))" by (simp add: concat_tok_text)
  from raw(1) doc raw(2) d p5 t len p8 p9 show ?thesis by blast
qed

theorem C2_frame_witness:
  "wrote (main win_world) = Some
        (file_entry (py_str ''D41D8CD98F00B204E9800998ECF8427E'') (py_str ''1'') (py_str ''a.lua'') @ [10]
         @ file_entry (py_str ''D41D8CD98F00B204E9800998ECF8427E'') (py_str ''0'') (py_str ''b.lua'') @ [10]
         @ file_entry (py_str ''00000000000000000000000000000000'') (py_str ''0'') (py_str ''c.lua''))
   \<and> crlf win_world
   \<and> disk win_world = Some
        (file_entry (py_str ''d41d8cd98f00b204e9800998ecf8427e'') (py_str ''1'') (py_str ''a.lua'') @ [13, 10]
         @ file_entry (py_str ''00000000000000000000000000000000'') (py_str ''0'') (py_str ''b.lua'') @ [13, 10]
         @ file_entry (py_str ''00000000000000000000000000000000'') (py_str ''0'') (py_str ''c.lua''))
   \<and> manifest win_world = Some ex_manifest
   \<and> disk (after win_world) = Some
        (file_entry (py_str ''D41D8CD98F00B204E9800998ECF8427E'') (py_str ''1'') (py_str ''a.lua'') @ [13, 10]
         @ file_entry (py_str ''D41D8CD98F00B204E9800998ECF8427E'') (py_str ''0'') (py_str ''b.lua'') @ [13, 10]
         @ file_entry (py_str ''00000000000000000000000000000000'') (py_str ''0'') (py_str ''c.lua''))
   \<and> length (write_text win_world
        (file_entry (py_str ''D41D8CD98F00B204E9800998ECF8427E'') (py_str ''1'') (py_str ''a.lua'') @ [10]
         @ file_entry (py_str ''D41D8CD98F00B204E9800998ECF8427E'') (py_str ''0'') (py_str ''b.lua'') @ [10]
         @ file_entry (py_str ''00000000000000000000000000000000'') (py_str ''0'') (py_str ''c.lua'')))
       = length (utf8_encode (write_newlines [13, 10] ex_manifest))"
proof -
  let ?t = "file_entry (py_str ''D41D8CD98F00B204E9800998ECF8427E'') (py_str ''1'') (py_str ''a.lua'') @ [10]
         @ file_entry (py_str ''D41D8CD98F00B204E9800998ECF8427E'') (py_str ''0'') (py_str ''b.lua'') @ [10]
         @ file_entry (py_str ''00000000000000000000000000000000'') (py_str ''0'') (py_str ''c.lua'')"
  have 1: "wrote (main win_world) = Some ?t" by (simp add: main_win main_ex)
  have 2: "crlf win_world" "linesep win_world = [13, 10]"
    "disk win_world = Some (write_newlines [13, 10] ex_manifest)"
    by (simp_all add: win_world_def linesep_def)
  have 3: "write_newlines [13, 10] ex_manifest =
        file_entry (py_str ''d41d8cd98f00b204e9800998ecf8427e'') (py_str ''1'') (py_str ''a.lua'') @ [13, 10]
         @ file_entry (py_str ''00000000000000000000000000000000'') (py_str ''0'') (py_str ''b.lua'') @ [13, 10]
         @ file_entry (py_str ''00000000000000000000000000000000'') (py_str ''0'') (py_str ''c.lua'')"
    by (simp add: ex_manifest_def write_newlines_def file_entry_def py_str_def dquote_def)
  have 4: "write_newlines [13, 10] ?t =
        file_entry (py_str ''D41D8CD98F00B204E9800998ECF8427E'') (py_str ''1'') (py_str ''a.lua'') @ [13, 10]
         @ file_entry (py_str ''D41D8CD98F00B204E9800998ECF8427E'') (py_str ''0'') (py_str ''b.lua'') @ [13, 10]
         @ file_entry (py_str ''00000000000000000000000000000000'') (py_str ''0'') (py_str ''c.lua'')"
    by (simp add: write_newlines_def file_entry_def py_str_def dquote_def)
  have 5: "\<exists>s. 13 \<notin> set s \<and> write_newlines [13, 10] ex_manifest = write_newlines (linesep win_world) s"
    unfolding 2(2) using ex_manifest_no_cr by blast
  from C2_frame [OF 1] 2 5 have
    "disk (after win_world) = Some (write_newlines [13, 10] ?t)"
    "length (write_text win_world ?t) = length (utf8_encode (write_newlines [13, 10] ex_manifest))"
    by auto
  with 1 2 win_world_eval(1) show ?thesis unfolding 3 4 by simp
qed

text \<open>
  C2 as stated fails twice. It counts the entries whose hash matched the file's hash
  without regard to case among the text that is preserved byte for byte: in the example
  world the first entry records the right hash in lower case; the second entry is updated,
  so the manifest is rewritten, and the first entry is written with its hash in upper case.
  And it counts white space among that text: a manifest with \<open>\r\n\<close> line ends, rewritten on
  POSIX, comes back with \<open>\n\<close> line ends, one byte shorter per line.
\<close>

theorem C2_counterexample:
  "manifest ex_world =
     Some (file_entry (py_str ''d41d8cd98f00b204e9800998ecf8427e'') (py_str ''1'') (py_str ''a.lua'') @ [10]
         @ file_entry (py_str ''00000000000000000000000000000000'') (py_str ''0'') (py_str ''b.lua'') @ [10]
         @ file_entry (py_str ''00000000000000000000000000000000'') (py_str ''0'') (py_str ''c.lua''))
   \<and> files ex_world (py_str ''a.lua'') = Content []
   \<and> upper (py_str ''d41d8cd98f00b204e9800998ecf8427e'') = md5_of []
   \<and> wrote (main ex_world) =
     Some (file_entry (py_str ''D41D8CD98F00B204E9800998ECF8427E'') (py_str ''1'') (py_str ''a.lua'') @ [10]
         @ file_entry (py_str ''D41D8CD98F00B204E9800998ECF8427E'') (py_str ''0'') (py_str ''b.lua'') @ [10]
         @ file_entry (py_str ''00000000000000000000000000000000'') (py_str ''0'') (py_str ''c.lua''))
   \<and> file_entry (py_str ''D41D8CD98F00B204E9800998ECF8427E'') (py_str ''1'') (py_str ''a.lua'')
       \<noteq> file_entry (py_str ''d41d8cd98f00b204e9800998ecf8427e'') (py_str ''1'') (py_str ''a.lua'')
   \<and> disk dos_world =
     Some (file_entry (py_str ''00000000000000000000000000000000'') (py_str ''0'') (py_str ''b.lua'') @ [13, 10])
   \<and> \<not> crlf dos_world
   \<and> files dos_world (py_str ''b.lua'') = Content []
   \<and> disk (after dos_world) =
     Some (file_entry (py_str ''D41D8CD98F00B204E9800998ECF8427E'') (py_str ''0'') (py_str ''b.lua'') @ [10])"
proof -
  have a: "disk (after dos_world) =
     Some (file_entry (py_str ''D41D8CD98F00B204E9800998ECF8427E'') (py_str ''0'') (py_str ''b.lua'') @ [10])"
    by (simp add: after_def main_dos)
       (simp add: linesep_def dos_world_def posix_world_def write_newlines_lf)
  have b: "disk dos_world =
     Some (file_entry (py_str ''00000000000000000000000000000000'') (py_str ''0'') (py_str ''b.lua'') @ [13, 10])"
    "\<not> crlf dos_world" "files dos_world (py_str ''b.lua'') = Content []"
    by (simp_all add: dos_world_eval ex_files_def) (simp_all add: dos_world_def posix_world_def dos_manifest_def)
  have c: "manifest ex_world =
     Some (file_entry (py_str ''d41d8cd98f00b204e9800998ecf8427e'') (py_str ''1'') (py_str ''a.lua'') @ [10]
         @ file_entry (py_str ''00000000000000000000000000000000'') (py_str ''0'') (py_str ''b.lua'') @ [10]
         @ file_entry (py_str ''00000000000000000000000000000000'') (py_str ''0'') (py_str ''c.lua''))
   \<and> files ex_world (py_str ''a.lua'') = Content []
   \<and> upper (py_str ''d41d8cd98f00b204e9800998ecf8427e'') = md5_of []
   \<and> wrote (main ex_world) =
     Some (file_entry (py_str ''D41D8CD98F00B204E9800998ECF8427E'') (py_str ''1'') (py_str ''a.lua'') @ [10]
         @ file_entry (py_str ''D41D8CD98F00B204E9800998ECF8427E'') (py_str ''0'') (py_str ''b.lua'') @ [10]
         @ file_entry (py_str ''00000000000000000000000000000000'') (py_str ''0'') (py_str ''c.lua''))
   \<and> file_entry (py_str ''D41D8CD98F00B204E9800998ECF8427E'') (py_str ''1'') (py_str ''a.lua'')
       \<noteq> file_entry (py_str ''d41d8cd98f00b204e9800998ecf8427e'') (py_str ''1'') (py_str ''a.lua'')"
    by (simp add: main_ex) (simp add: ex_world_eval ex_manifest_def ex_files_def md5_of_empty
      py_str_def upper_def upper_char_def file_entry_def)
  from a b c show ?thesis by blast
qed




text \<open>
  C4 (write only on change). The manifest is written, with the reconstructed text, exactly
  when the run ends without error and the counter is positive. When it is zero, and so
  when no entry matches, nothing is written.
\<close>

theorem C4_write_iff_updated:
  "(wrote (main w) \<noteq> None \<longleftrightarrow> raised (main w) = None \<and> 0 < count (main w))
   \<and> (\<forall>text. manifest w = Some text \<and> raised (main w) = None \<and> 0 < count (main w) \<longrightarrow>
         wrote (main w) = Some (concat (map (tok_new (files w)) (finditer text))))
   \<and> (\<forall>text. manifest w = Some text \<and> entries text = [] \<longrightarrow>
         raised (main w) = None \<and> count (main w) = 0 \<and> wrote (main w) = None \<and> after w = w)"
proof (cases "manifest w")
  case None
  then show ?thesis by (simp add: main_unreadable_manifest)
next
  case (Some doc)
  show ?thesis
  proof (cases "\<forall>t \<in> set (finditer doc). \<not> tok_fails (files w) t")
    case True
    define n where "n = sum_list (map (tok_count (files w)) (finditer doc))"
    have z: "entries doc = [] \<Longrightarrow> n = 0"
      unfolding n_def count_entries entries_def by simp
    have m: "main w = \<lparr>raised = None,
        stdout = concat (map (tok_lines (files w)) (finditer doc)) @ [summary n], count = n,
        wrote = (if n \<noteq> 0 then Some (concat (map (tok_new (files w)) (finditer doc))) else None)\<rparr>"
      using main_ok [OF Some True] unfolding n_def .
    show ?thesis
      unfolding after_def m using Some z by auto
  next
    case False
    then obtain t where t: "t \<in> set (finditer doc)" "tok_fails (files w) t" by blast
    from t(2) obtain m where "t = Entry m" by (cases t) auto
    with t(1) have "entries doc \<noteq> []"
      unfolding entries_def using set_entries_of [of "finditer doc"] by auto
    with main_fail [OF Some t] Some show ?thesis by auto
  qed
qed

theorem C4_write_iff_updated_witness:
  "manifest ex_world = Some ex_manifest \<and> raised (main ex_world) = None \<and> 0 < count (main ex_world)
   \<and> wrote (main ex_world) = Some (concat (map (tok_new (files ex_world)) (finditer ex_manifest)))
   \<and> manifest plain_world = Some (py_str ''<Mod></Mod>'') \<and> entries (py_str ''<Mod></Mod>'') = []
   \<and> raised (main plain_world) = None \<and> count (main plain_world) = 0
   \<and> wrote (main plain_world) = None \<and> after plain_world = plain_world"
proof -
  have 1: "manifest ex_world = Some ex_manifest \<and> raised (main ex_world) = None \<and> 0 < count (main ex_world)"
    by (simp add: main_ex) (simp add: ex_world_eval)
  have 2: "manifest plain_world = Some (py_str ''<Mod></Mod>'') \<and> entries (py_str ''<Mod></Mod>'') = []"
    unfolding entries_def finditer_plain by (simp add: plain_world_eval py_str_def)
  from C4_write_iff_updated [of ex_world] C4_write_iff_updated [of plain_world] 1 2
  show ?thesis by blast
qed




text \<open>
  C6 (fatal read errors). If the manifest cannot be read, or if the bytes of an existing
  referenced file cannot be read, the run ends with an error and never writes the manifest:
  the world after the run is the world before it.
\<close>

theorem C6_read_errors_abort:
  assumes "manifest w = None \<or>
     (\<exists>text m. manifest w = Some text \<and> m \<in> set (entries text) \<and> files w (m_group m 4) = Unreadable)"
  shows "raised (main w) \<noteq> None \<and> wrote (main w) = None \<and> after w = w"
  using assms
proof
  assume "manifest w = None"
  then show ?thesis by (simp add: main_unreadable_manifest after_def)
next
  assume "\<exists>text m. manifest w = Some text \<and> m \<in> set (entries text) \<and> files w (m_group m 4) = Unreadable"
  then obtain doc m where *: "manifest w = Some doc" "m \<in> set (entries doc)"
    "files w (m_group m 4) = Unreadable" by blast
  from *(2) have "Entry m \<in> set (finditer doc)"
    unfolding entries_def set_entries_of by simp
  moreover have "tok_fails (files w) (Entry m)" using *(3) by simp
  ultimately show ?thesis using main_fail [OF *(1)] by (auto simp: after_def)
qed

theorem C6_read_errors_abort_witness:
  "manifest abort_world = Some ex_manifest
   \<and> entry_groups (py_str ''00000000000000000000000000000000'') (py_str ''0'') (py_str ''c.lua'')
       \<in> set (entries ex_manifest)
   \<and> files abort_world (py_str ''c.lua'') = Unreadable
   \<and> raised (main abort_world) \<noteq> None \<and> wrote (main abort_world) = None
   \<and> after abort_world = abort_world"
proof -
  let ?m = "entry_groups (py_str ''00000000000000000000000000000000'') (py_str ''0'') (py_str ''c.lua'')"
  have 1: "manifest abort_world = Some ex_manifest" by (simp add: abort_world_eval)
  have 2: "?m \<in> set (entries ex_manifest)" by (simp add: entries_def finditer_ex)
  have 3: "files abort_world (m_group ?m 4) = Unreadable"
    by (simp add: abort_world_eval abort_files_def entry_groups_def py_str_def)
  have 4: "m_group ?m 4 = py_str ''c.lua''" by (simp add: entry_groups_def)
  have "manifest abort_world = None \<or>
     (\<exists>text m. manifest abort_world = Some text \<and> m \<in> set (entries text)
        \<and> files abort_world (m_group m 4) = Unreadable)"
    using 1 2 3 by blast
  from C6_read_errors_abort [OF this] 1 2 3 4 show ?thesis by simp
qed

text \<open>
  C7 (idempotence), as amended. A second run right after a successful first one, the
  referenced files being what they were, updates nothing, writes nothing and reports that
  all hashes are up to date; the manifest it leaves is the one it found. This holds when
  the first run wrote nothing or no entry names the manifest itself.
\<close>

theorem C7_idempotence:
  assumes "manifest w = Some text" "raised (main w) = None"
    and "wrote (main w) = None \<or> (\<forall>m \<in> set (entries text). \<not> self_named w (m_group m 4))"
  shows "raised (main (after w)) = None \<and> count (main (after w)) = 0
     \<and> wrote (main (after w)) = None
     \<and> last (stdout (main (after w))) = py_str ''All hashes up to date.''
     \<and> after (after w) = after w"
proof -
  let ?fs = "files w"
  let ?fs' = "files (after w)"
  let ?t = "concat (map (tok_new ?fs) (finditer text))"
  have nf: "\<forall>m \<in> set (entries text). ?fs (m_group m 4) \<noteq> Unreadable"
    using raised_None_no_fail [OF assms(1,2)] unfolding no_fail_iff entries_def .
  obtain text' where t': "manifest (after w) = Some text'"
    and good: "\<forall>m' \<in> set (entries text'). \<not> is_update ?fs' m' \<and> ?fs' (m_group m' 4) \<noteq> Unreadable"
  proof (cases "count (main w) = 0")
    case True
    then have a: "after w = w" using after_eq [OF assms(1,2)] by simp
    have "filter (is_update ?fs) (entries text) = []"
      using True count_eq [OF assms(1,2)] by simp
    then have "\<forall>m \<in> set (entries text). \<not> is_update ?fs m"
      by (simp add: filter_empty_conv)
    with nf assms(1) that [of "text"] show ?thesis unfolding a by simp
  next
    case False
    then have w: "wrote (main w) = Some ?t" using wrote_eq [OF assms(1,2)] by simp
    from manifest_after [OF w] have a: "manifest (after w) = Some ?t" .
    from w assms(3) have ns: "\<forall>m \<in> set (entries text). \<not> self_named w (m_group m 4)" by simp
    have e: "entries ?t = map (new_groups ?fs) (entries text)" by (rule entries_new_text)
    have "\<not> is_update ?fs' m' \<and> ?fs' (m_group m' 4) \<noteq> Unreadable" if "m' \<in> set (entries ?t)" for m'
    proof -
      from that obtain m where m: "m \<in> set (entries text)" "m' = new_groups ?fs m"
        unfolding e by auto
      from entries_shape [OF m(1)] obtain g1 g2 g3 g4 where s: "m = [g1, g2, g3, g4, close_tag]"
        by blast
      from nf m(1) have r: "?fs g4 \<noteq> Unreadable" unfolding s by auto
      have p: "m_group m' 4 = g4" using new_groups_shape(1) [OF s, of ?fs] m(2) s by simp
      from ns m(1) have "\<not> self_named w g4" unfolding s by auto
      then have f: "?fs' (m_group m' 4) = ?fs (m_group m' 4)"
        unfolding p by (intro files_after) simp
      have "\<not> is_update ?fs m'" using new_groups_shape(3) [where fs = ?fs, OF s r] m(2) by simp
      then have "\<not> is_update ?fs' m'"
        using is_update_cong [where fs = ?fs' and fs' = ?fs and m = m', OF f] by simp
      with f r p show ?thesis by simp
    qed
    with a that [of ?t] show ?thesis by blast
  qed
  have ok: "\<forall>t \<in> set (finditer text'). \<not> tok_fails ?fs' t"
    unfolding no_fail_iff using good unfolding entries_def by blast
  have z: "sum_list (map (tok_count ?fs') (finditer text')) = 0"
    unfolding count_entries using good unfolding entries_def by (simp add: filter_empty_conv)
  have "main (after w) = \<lparr>raised = None,
      stdout = concat (map (tok_lines ?fs') (finditer text')) @ [summary 0], count = 0, wrote = None\<rparr>"
    unfolding main_ok [OF t' ok] z by simp
  then show ?thesis by (simp add: summary_def after_def)
qed

theorem C7_idempotence_witness:
  "manifest ex_world = Some ex_manifest \<and> raised (main ex_world) = None
   \<and> wrote (main ex_world) \<noteq> None
   \<and> self_named ex_world = (\<lambda>p. False)
   \<and> raised (main (after ex_world)) = None \<and> count (main (after ex_world)) = 0
   \<and> wrote (main (after ex_world)) = None
   \<and> last (stdout (main (after ex_world))) = py_str ''All hashes up to date.''
   \<and> after (after ex_world) = after ex_world"
proof -
  have 1: "manifest ex_world = Some ex_manifest" by (simp add: ex_world_eval)
  have 2: "raised (main ex_world) = None" by (simp add: main_ex)
  have 3: "self_named ex_world = (\<lambda>p. False)"
    by (simp add: ex_world_def posix_world_def)
  have 4: "wrote (main ex_world) \<noteq> None" by (simp add: main_ex)
  from 3 have "wrote (main ex_world) = None \<or>
      (\<forall>m \<in> set (entries ex_manifest). \<not> self_named ex_world (m_group m 4))" by simp
  from C7_idempotence [OF 1 2 this] 1 2 3 4 show ?thesis by blast
qed

text \<open>
  C7 as stated fails for a manifest with an entry that names the manifest itself: the
  first run rewrites the file whose hash it has just recorded, so the second run finds
  another hash, updates the entry again and rewrites the manifest again.
\<close>

theorem C7_counterexample:
  "manifest self_world =
     Some (file_entry (py_str ''00000000000000000000000000000000'') (py_str ''1'') (py_str ''VoxDeorum.modinfo''))
   \<and> self_named self_world (py_str ''VoxDeorum.modinfo'')
   \<and> raised (main self_world) = None
   \<and> wrote (main self_world) =
       Some (file_entry (py_str ''03D37665630C4724758F5FFFBB3B1498'') (py_str ''1'') (py_str ''VoxDeorum.modinfo''))
   \<and> stdout (main (after self_world)) =
       [py_str ''  VoxDeorum.modinfo: 03D37665630C4724758F5FFFBB3B1498 -> 1186E3DA5B0D68BD98FA63DB1207572F'',
        py_str ''Updated 1 hash(es).'']
   \<and> count (main (after self_world)) = 1
   \<and> wrote (main (after self_world)) =
       Some (file_entry (py_str ''1186E3DA5B0D68BD98FA63DB1207572F'') (py_str ''1'') (py_str ''VoxDeorum.modinfo''))"
  by (simp add: main_self main_after_self self_world_eval)
     (simp add: self_manifest_def self_manifest_1_def self_manifest_2_def self_world_def)

text \<open>
  C8 (standard output), as amended. The standard output of every run that ends without
  error is, for the entries in order, one line \<open>  MISSING: <path>\<close> for each entry whose
  file is missing and one line \<open>  <path>: <OLD> -> <NEW>\<close> for each entry that is updated,
  then one summary line: \<open>Updated <N> hash(es).\<close> when the counter \<open>N\<close> is positive,
  \<open>All hashes up to date.\<close> otherwise. \<open>N\<close> is the number of updated entries.
\<close>

theorem C8_stdout:
  assumes "manifest w = Some doc" "raised (main w) = None"
  shows "stdout (main w) =
      concat (map (\<lambda>m. case files w (m_group m 4) of
                    Absent \<Rightarrow> [py_str ''  MISSING: '' @ m_group m 4]
                  | Unreadable \<Rightarrow> []
                  | Content bs \<Rightarrow>
                      if upper (m_group m 2) \<noteq> md5_of bs
                      then [py_str ''  '' @ m_group m 4 @ py_str '': '' @ upper (m_group m 2)
                            @ py_str '' -> '' @ md5_of bs]
                      else [])
                (entries doc))
      @ [if 0 < count (main w)
         then py_str ''Updated '' @ decimal (count (main w)) @ py_str '' hash(es).''
         else py_str ''All hashes up to date.'']
     \<and> count (main w) = length (filter (is_update (files w)) (entries doc))"
proof -
  have "entry_lines (files w) = (\<lambda>m. case files w (m_group m 4) of
                    Absent \<Rightarrow> [py_str ''  MISSING: '' @ m_group m 4]
                  | Unreadable \<Rightarrow> []
                  | Content bs \<Rightarrow>
                      if upper (m_group m 2) \<noteq> md5_of bs
                      then [py_str ''  '' @ m_group m 4 @ py_str '': '' @ upper (m_group m 2)
                            @ py_str '' -> '' @ md5_of bs]
                      else [])"
    by (rule ext) (simp add: entry_lines_def)
  then show ?thesis
    using stdout_eq [OF assms] count_eq [OF assms] by (simp add: summary_def)
qed

theorem C8_stdout_witness:
  "manifest ex_world = Some ex_manifest \<and> raised (main ex_world) = None
   \<and> stdout (main ex_world) =
       [py_str ''  b.lua: 00000000000000000000000000000000 -> D41D8CD98F00B204E9800998ECF8427E'',
        py_str ''  MISSING: c.lua'',
        py_str ''Updated 1 hash(es).'']
   \<and> count (main ex_world) = length (filter (is_update (files ex_world)) (entries ex_manifest))"
proof -
  have 1: "manifest ex_world = Some ex_manifest" by (simp add: ex_world_eval)
  have 2: "raised (main ex_world) = None" by (simp add: main_ex)
  have 3: "stdout (main ex_world) =
       [py_str ''  b.lua: 00000000000000000000000000000000 -> D41D8CD98F00B204E9800998ECF8427E'',
        py_str ''  MISSING: c.lua'',
        py_str ''Updated 1 hash(es).'']" by (simp add: main_ex)
  from C8_stdout [OF 1 2] 1 2 3 show ?thesis by simp
qed

text \<open>
  C8 as stated speaks of every run. A run that a read error ends prints no summary line:
  here the third entry's file cannot be read, the output stops after the lines of the first
  two entries, although one entry was counted as updated.
\<close>

theorem C8_counterexample:
  "manifest abort_world = Some ex_manifest
   \<and> files abort_world (py_str ''c.lua'') = Unreadable
   \<and> raised (main abort_world) = Some (FileReadError (py_str ''c.lua''))
   \<and> count (main abort_world) = 1
   \<and> stdout (main abort_world) =
       [py_str ''  MISSING: a.lua'',
        py_str ''  b.lua: 00000000000000000000000000000000 -> D41D8CD98F00B204E9800998ECF8427E'']"
  by (simp add: main_abort) (simp add: abort_world_eval abort_files_def py_str_def)





text \<open>
  C10 (determinism). The outcome of a run (output, counter, text written, error) is a
  function of the manifest's text and of what is found at the paths its entries name: two
  worlds that agree on these give the same outcome, whatever else differs.
\<close>

theorem C10_deterministic:
  assumes "manifest w = manifest w'"
    and "\<forall>text m. manifest w = Some text \<and> m \<in> set (entries text) \<longrightarrow>
           files w (m_group m 4) = files w' (m_group m 4)"
  shows "main w = main w'"
proof (cases "manifest w")
  case None
  with assms(1) show ?thesis by (simp add: main_def)
next
  case (Some doc)
  with assms(2) have "\<forall>m \<in> set (entries_of (finditer doc)). files w (m_group m 4) = files w' (m_group m 4)"
    unfolding entries_def by blast
  from sub_tokens_cong [OF this] Some assms(1) show ?thesis
    by (simp add: main_def re_sub_def)
qed

theorem C10_deterministic_witness:
  "manifest ex_world = manifest other_world
   \<and> files ex_world (py_str ''z.lua'') = Absent \<and> files other_world (py_str ''z.lua'') = Content [1]
   \<and> main ex_world = main other_world"
proof -
  have 1: "manifest ex_world = manifest other_world"
    by (simp add: ex_world_eval other_world_eval)
  have 2: "\<forall>text m. manifest ex_world = Some text \<and> m \<in> set (entries text) \<longrightarrow>
           files ex_world (m_group m 4) = files other_world (m_group m 4)"
    by (auto simp: ex_world_eval other_world_eval entries_def finditer_ex entry_groups_def
        other_files_def py_str_def)
  have 3: "files ex_world (py_str ''z.lua'') = Absent \<and> files other_world (py_str ''z.lua'') = Content [1]"
    by (simp add: ex_world_eval other_world_eval other_files_def ex_files_def py_str_def)
  from C10_deterministic [OF 1 2] 1 3 show ?thesis by simp
qed

end
